theory Spec2Isabelle
  imports Complex_Main "HOL-Library.Char_ord" "HOL-Library.List_Lexorder"
begin

section \<open>The label maker of \<open>yolo_training/tools/label_gui.py\<close>\<close>

text \<open>
  The development embeds the label codec, the label files and the navigation and
  class-selection logic of \<^verbatim>\<open>label_gui.py\<close>. Python floats are modelled as exact reals
  (the arithmetic the program would do without rounding; infinities and NaN are outside
  the model), Python integers as \<open>int\<close>, tuples as HOL tuples, the object of the window as
  a record that every method takes and returns, and the exceptions that the modelled
  statements can raise as values. The calls into Tk and PIL that only draw are taken to
  succeed and are not part of the state.
\<close>

subsection \<open>Errors and constants\<close>

datatype py_error =
  ZeroDivisionError | IndexError | OSError | AttributeError | SystemExit | ValueError

definition MAX_CANVAS_W :: int where
  "MAX_CANVAS_W = 1280"

definition MAX_CANVAS_H :: int where
  "MAX_CANVAS_H = 800"

type_synonym rect = "real \<times> real \<times> real \<times> real"

subsection \<open>The coordinate codec\<close>

text \<open>
  \<^verbatim>\<open>yolo_save_label\<close>, lines 61 to 85: clamp, order, centre and size, division by the
  image size. The division by \<open>W\<close> (line 82) and by \<open>H\<close> (line 83) raises
  \<open>ZeroDivisionError\<close> on a zero size.
\<close>

definition normalize_box :: "rect \<Rightarrow> int \<times> int \<Rightarrow> py_error + rect" where
  "normalize_box bbox_xyxy img_size =
     (case img_size of (W, H) \<Rightarrow>
      case bbox_xyxy of (x1, y1, x2, y2) \<Rightarrow>
        let x1 = max 0 (min x1 (real_of_int (W - 1)));
            x2 = max 1 (min x2 (real_of_int W));
            y1 = max 0 (min y1 (real_of_int (H - 1)));
            y2 = max 1 (min y2 (real_of_int H));
            (x1, x2) = (if x2 < x1 then (x2, x1) else (x1, x2));
            (y1, y2) = (if y2 < y1 then (y2, y1) else (y1, y2));
            w = x2 - x1;
            h = y2 - y1;
            cx = x1 + w / 2;
            cy = y1 + h / 2
        in if W = 0 \<or> H = 0 then Inl ZeroDivisionError
           else Inr (cx / real_of_int W, cy / real_of_int H,
                     w / real_of_int W, h / real_of_int H))"

text \<open>\<^verbatim>\<open>load_image\<close>, lines 262 to 265: the normalized record back to pixel corners.\<close>

definition denormalize_box :: "rect \<Rightarrow> int \<times> int \<Rightarrow> rect" where
  "denormalize_box box img_size =
     (case img_size of (W, H) \<Rightarrow>
      case box of (cx, cy, w, h) \<Rightarrow>
        ((cx - w / 2) * real_of_int W, (cy - h / 2) * real_of_int H,
         (cx + w / 2) * real_of_int W, (cy + h / 2) * real_of_int H))"

text \<open>The clamp of lines 65 to 68 on its own (the same four lines are 350 to 353).\<close>

definition clamp_rect :: "rect \<Rightarrow> int \<times> int \<Rightarrow> rect" where
  "clamp_rect bbox_xyxy img_size =
     (case img_size of (W, H) \<Rightarrow>
      case bbox_xyxy of (x1, y1, x2, y2) \<Rightarrow>
        (max 0 (min x1 (real_of_int (W - 1))), max 0 (min y1 (real_of_int (H - 1))),
         max 1 (min x2 (real_of_int W)), max 1 (min y2 (real_of_int H))))"

definition in_image :: "rect \<Rightarrow> int \<times> int \<Rightarrow> bool" where
  "in_image r img_size =
     (case img_size of (W, H) \<Rightarrow>
      case r of (x1, y1, x2, y2) \<Rightarrow>
        0 \<le> x1 \<and> x1 \<le> real_of_int W \<and> 0 \<le> x2 \<and> x2 \<le> real_of_int W \<and>
        0 \<le> y1 \<and> y1 \<le> real_of_int H \<and> 0 \<le> y2 \<and> y2 \<le> real_of_int H)"

definition unit_box :: "rect \<Rightarrow> bool" where
  "unit_box box =
     (case box of (cx, cy, w, h) \<Rightarrow>
        0 \<le> cx \<and> cx \<le> 1 \<and> 0 \<le> cy \<and> cy \<le> 1 \<and> 0 \<le> w \<and> w \<le> 1 \<and> 0 \<le> h \<and> h \<le> 1)"

text \<open>
  One axis of lines 65 to 74, as an aid to the proofs: the two clamped ends, swapped when
  the second is below the first. \<open>normalize_box_axis\<close> below shows that
  \<open>normalize_box\<close> is this, once for \<open>x\<close> and once for \<open>y\<close>.
\<close>

definition axis :: "real \<Rightarrow> real \<Rightarrow> int \<Rightarrow> real \<times> real" where
  "axis p q n =
     (let a = max 0 (min p (real_of_int (n - 1)));
          b = max 1 (min q (real_of_int n))
      in if b < a then (b, a) else (a, b))"

text \<open>The largest coordinate difference of two rectangles.\<close>

definition rect_dist :: "rect \<Rightarrow> rect \<Rightarrow> real" where
  "rect_dist r r' =
     (case r of (a1, b1, a2, b2) \<Rightarrow> case r' of (c1, d1, c2, d2) \<Rightarrow>
        max (max \<bar>a1 - c1\<bar> \<bar>b1 - d1\<bar>) (max \<bar>a2 - c2\<bar> \<bar>b2 - d2\<bar>))"

subsection \<open>The display transform\<close>

text \<open>Python's \<^verbatim>\<open>int()\<close> on a float truncates towards zero.\<close>

definition py_int :: "real \<Rightarrow> int" where
  "py_int x = (if 0 \<le> x then \<lfloor>x\<rfloor> else \<lceil>x\<rceil>)"

text \<open>
  \<^verbatim>\<open>load_image\<close>, lines 267 to 270: a pixel coordinate to a canvas coordinate, the same
  expression for \<open>x\<close> (with \<open>offset_x\<close>, \<open>scale_x\<close>) and \<open>y\<close> (with \<open>offset_y\<close>,
  \<open>scale_y\<close>).
\<close>

definition to_display :: "int \<Rightarrow> real \<Rightarrow> real \<Rightarrow> int" where
  "to_display offset scale p = offset + py_int (p * scale)"

text \<open>
  \<^verbatim>\<open>save_label\<close>, lines 343 to 346: a canvas coordinate back to a pixel coordinate. The
  float division raises \<open>ZeroDivisionError\<close> on a zero scale.
\<close>

definition to_original :: "int \<Rightarrow> real \<Rightarrow> real \<Rightarrow> py_error + real" where
  "to_original offset scale d =
     (if scale = 0 then Inl ZeroDivisionError else Inr ((d - real_of_int offset) / scale))"

subsection \<open>Label files\<close>

text \<open>
  A file holds bytes, written as a list of 8-bit characters; the window keeps the label
  directory as a map from a path to the bytes of the regular file at that path. A Python
  string is a list of Unicode code points, and \<open>cps\<close> gives the code points of a string
  of ASCII characters.
\<close>

type_synonym fs = "string \<rightharpoonup> string"

type_synonym py_str = "nat list"

definition cps :: "string \<Rightarrow> py_str" where
  "cps s = map of_char s"

text \<open>
  What \<open>yolo_load_label\<close> may find at a path: a regular file with its bytes, or something
  that exists and that \<^verbatim>\<open>open\<close> refuses, a directory or a file without read permission.
  \<open>regular_files\<close> is a directory in which every entry is a regular file.
\<close>

datatype node = File string | NoAccess

type_synonym disk = "string \<rightharpoonup> node"

definition regular_files :: "fs \<Rightarrow> disk" where
  "regular_files files = (\<lambda>path. map_option File (files path))"

text \<open>
  The code points for which Python's \<^verbatim>\<open>str.isspace\<close> holds, and the same for a
  character taken as the code point of its value.
\<close>

definition is_space_cp :: "nat \<Rightarrow> bool" where
  "is_space_cp c =
     ((9 \<le> c \<and> c \<le> 13) \<or> (28 \<le> c \<and> c \<le> 32) \<or> c = 133 \<or> c = 160 \<or> c = 5760
      \<or> (8192 \<le> c \<and> c \<le> 8202) \<or> c = 8232 \<or> c = 8233 \<or> c = 8239 \<or> c = 8287
      \<or> c = 12288)"

definition is_space :: "char \<Rightarrow> bool" where
  "is_space c = is_space_cp (of_char c)"

text \<open>
  \<^verbatim>\<open>f.readline()\<close> of a file opened in text mode: the text up to the first line end, which
  is returned as one newline whether the text has a line feed or a carriage return there.
\<close>

fun readline :: "py_str \<Rightarrow> py_str" where
  "readline [] = []"
| "readline (c # cs) = (if c = 10 \<or> c = 13 then [10] else c # readline cs)"

text \<open>\<^verbatim>\<open>str.strip()\<close>: without the white space at both ends.\<close>

definition strip :: "py_str \<Rightarrow> py_str" where
  "strip s = rev (dropWhile is_space_cp (rev (dropWhile is_space_cp s)))"

text \<open>
  \<^verbatim>\<open>str.split()\<close> without arguments: the maximal runs of code points that are not white
  space. \<open>py_split_from tok s\<close> continues a token \<open>tok\<close> that has been started.
  \<open>split_ws\<close> is the same on a string of characters.
\<close>

fun py_split_from :: "py_str \<Rightarrow> py_str \<Rightarrow> py_str list" where
  "py_split_from tok [] = (if tok = [] then [] else [tok])"
| "py_split_from tok (c # cs) =
     (if is_space_cp c
      then (if tok = [] then py_split_from [] cs else tok # py_split_from [] cs)
      else py_split_from (tok @ [c]) cs)"

definition py_split :: "py_str \<Rightarrow> py_str list" where
  "py_split s = py_split_from [] s"

fun split_from :: "string \<Rightarrow> string \<Rightarrow> string list" where
  "split_from tok [] = (if tok = [] then [] else [tok])"
| "split_from tok (c # cs) =
     (if is_space c then (if tok = [] then split_from [] cs else tok # split_from [] cs)
      else split_from (tok @ [c]) cs)"

definition split_ws :: "string \<Rightarrow> string list" where
  "split_ws s = split_from [] s"

text \<open>
  \<^verbatim>\<open>yolo_load_label\<close>, lines 96 to 108. Three things of Python are parameters: the
  conversions \<^verbatim>\<open>int\<close> and \<^verbatim>\<open>float\<close>, \<open>None\<close> standing for the \<open>ValueError\<close> they raise, and
  \<open>decode\<close>, the text that the decoder of the locale makes of the bytes that
  \<^verbatim>\<open>readline\<close> reads, \<open>None\<close> standing for its \<open>UnicodeDecodeError\<close>. The type of floats
  is a parameter too, since the function only passes the values on. Every exception
  raised between lines 99 and 106, by \<^verbatim>\<open>open\<close>, by \<^verbatim>\<open>readline\<close> or by a conversion, is
  caught at line 107 and becomes \<open>None\<close>.
\<close>

definition yolo_load_label ::
  "(py_str \<Rightarrow> int option) \<Rightarrow> (py_str \<Rightarrow> 'f option) \<Rightarrow> (string \<Rightarrow> py_str option)
     \<Rightarrow> disk \<Rightarrow> string \<Rightarrow> (int \<times> ('f \<times> 'f \<times> 'f \<times> 'f)) option" where
  "yolo_load_label int_of float_of decode files label_path =
     (case files label_path of
        None \<Rightarrow> None
      | Some NoAccess \<Rightarrow> None
      | Some (File bytes) \<Rightarrow>
         (case decode bytes of
            None \<Rightarrow> None
          | Some content \<Rightarrow>
              let line = strip (readline content);
                  parts = py_split line
              in if length parts \<noteq> 5 then None
                 else case int_of (parts ! 0) of
                     None \<Rightarrow> None
                   | Some cid \<Rightarrow>
                      (case float_of (parts ! 1) of None \<Rightarrow> None | Some cx \<Rightarrow>
                       case float_of (parts ! 2) of None \<Rightarrow> None | Some cy \<Rightarrow>
                       case float_of (parts ! 3) of None \<Rightarrow> None | Some w \<Rightarrow>
                       case float_of (parts ! 4) of None \<Rightarrow> None | Some h \<Rightarrow>
                         Some (cid, (cx, cy, w, h)))))"

text \<open>Lines 100 and 101 on their own: the tokens of the first line of a text.\<close>

definition first_line_tokens :: "py_str \<Rightarrow> py_str list" where
  "first_line_tokens content = py_split (strip (readline content))"

text \<open>
  What the specification calls a line that parses: exactly five tokens, the first an
  integer and the other four floats.
\<close>

definition parses_as_record ::
  "(py_str \<Rightarrow> int option) \<Rightarrow> (py_str \<Rightarrow> 'f option) \<Rightarrow> py_str list \<Rightarrow> bool" where
  "parses_as_record int_of float_of tokens =
     (case tokens of
        [t0, t1, t2, t3, t4] \<Rightarrow>
          int_of t0 \<noteq> None \<and> float_of t1 \<noteq> None \<and> float_of t2 \<noteq> None
          \<and> float_of t3 \<noteq> None \<and> float_of t4 \<noteq> None
      | _ \<Rightarrow> False)"

text \<open>
  The codec \<^verbatim>\<open>ascii\<close>, for the examples: a byte below 128 is its own code point, any
  other byte is refused. UTF-8 gives the same text for bytes below 128 and refuses the
  bytes 254 and 255 as well.
\<close>

definition decode_ascii :: "string \<Rightarrow> py_str option" where
  "decode_ascii bytes =
     (if list_all (\<lambda>b. of_char b < (128::nat)) bytes then Some (cps bytes) else None)"

subsection \<open>Formatting\<close>

definition digit_char :: "nat \<Rightarrow> char" where
  "digit_char d = ''0123456789'' ! d"

text \<open>The decimal digits of a natural number, and \<^verbatim>\<open>str\<close> of an integer.\<close>

fun digits :: "nat \<Rightarrow> string" where
  "digits n = (if n < 10 then [digit_char n] else digits (n div 10) @ [digit_char (n mod 10)])"

declare digits.simps [simp del]

definition str_int :: "int \<Rightarrow> string" where
  "str_int i = (if i < 0 then CHR ''-'' # digits (nat (- i)) else digits (nat i))"

text \<open>The last \<open>k\<close> decimal digits of a number, with leading zeros.\<close>

primrec fixed_digits :: "nat \<Rightarrow> nat \<Rightarrow> string" where
  "fixed_digits 0 n = []"
| "fixed_digits (Suc k) n = fixed_digits k (n div 10) @ [digit_char (n mod 10)]"

text \<open>
  The format \<^verbatim>\<open>.6f\<close>: the value rounded to a multiple of one millionth, a tie going to the
  even neighbour, written with a sign when negative, the integer part, a point and six
  digits.
\<close>

definition round_half_even :: "real \<Rightarrow> int" where
  "round_half_even x =
     (let f = \<lfloor>x\<rfloor>; d = x - real_of_int f
      in if d < 1 / 2 then f else if 1 / 2 < d then f + 1 else if even f then f else f + 1)"

definition format_6f :: "real \<Rightarrow> string" where
  "format_6f x =
     (let m = nat (round_half_even (\<bar>x\<bar> * 10 ^ 6))
      in (if x < 0 then ''-'' else []) @ digits (m div 10 ^ 6) @ ''.''
         @ fixed_digits 6 (m mod 10 ^ 6))"

text \<open>
  \<^verbatim>\<open>yolo_save_label\<close>, lines 56 to 89: the record of \<open>normalize_box\<close> written as one line
  to the file at \<open>label_path\<close>, which is opened for writing and so replaced. An exception of
  the arithmetic leaves the files as they are.
\<close>

definition yolo_save_label :: "fs \<Rightarrow> string \<Rightarrow> int \<Rightarrow> rect \<Rightarrow> int \<times> int \<Rightarrow> py_error + fs" where
  "yolo_save_label files label_path class_id bbox_xyxy img_size =
     (case normalize_box bbox_xyxy img_size of
        Inl e \<Rightarrow> Inl e
      | Inr (cx_n, cy_n, w_n, h_n) \<Rightarrow>
          Inr (files(label_path \<mapsto>
                 str_int class_id @ '' '' @ format_6f cx_n @ '' '' @ format_6f cy_n @ '' ''
                 @ format_6f w_n @ '' '' @ format_6f h_n @ [CHR 0x0A])))"

text \<open>The text written at line 89, on its own.\<close>

definition label_line :: "int \<Rightarrow> rect \<Rightarrow> string" where
  "label_line class_id box =
     (case box of (cx_n, cy_n, w_n, h_n) \<Rightarrow>
        str_int class_id @ '' '' @ format_6f cx_n @ '' '' @ format_6f cy_n @ '' ''
        @ format_6f w_n @ '' '' @ format_6f h_n @ [CHR 0x0A])"

text \<open>
  The shape of the fields: an integer literal is an optional minus sign and digits; a
  number with six decimals is an optional minus sign, digits, a point and six digits.
\<close>

definition is_digit :: "char \<Rightarrow> bool" where
  "is_digit c = (c \<in> set ''0123456789'')"

definition int_literal :: "string \<Rightarrow> bool" where
  "int_literal s =
     (case s of [] \<Rightarrow> False
      | c # cs \<Rightarrow> if c = CHR ''-'' then cs \<noteq> [] \<and> list_all is_digit cs else list_all is_digit s)"

definition six_decimals :: "string \<Rightarrow> bool" where
  "six_decimals s =
     (let body = (if s \<noteq> [] \<and> hd s = CHR ''-'' then tl s else s);
          ip = takeWhile is_digit body;
          rest = dropWhile is_digit body
      in ip \<noteq> [] \<and> rest \<noteq> [] \<and> hd rest = CHR ''.'' \<and> length (tl rest) = 6
         \<and> list_all is_digit (tl rest))"

definition field_char :: "char \<Rightarrow> bool" where
  "field_char c = (is_digit c \<or> c = CHR ''-'' \<or> c = CHR ''.'')"

subsection \<open>The image directory\<close>

text \<open>
  Matching a name against a pattern as \<^verbatim>\<open>Path.glob\<close> does on a POSIX system, for
  patterns made of \<open>*\<close> and literal characters (the four patterns of line 49 are of this
  kind): \<open>*\<close> matches any run of characters, also an empty one and one that starts with a
  point; every other character matches itself, upper and lower case being different.
\<close>

fun glob_match :: "string \<Rightarrow> string \<Rightarrow> bool" where
  "glob_match [] [] = True"
| "glob_match [] (c # cs) = False"
| "glob_match (p # ps) [] = (p = CHR ''*'' \<and> glob_match ps [])"
| "glob_match (p # ps) (c # cs) =
     (if p = CHR ''*'' then glob_match ps (c # cs) \<or> glob_match (p # ps) cs
      else p = c \<and> glob_match ps cs)"

text \<open>
  \<^verbatim>\<open>images_dir.glob(ext)\<close>: the paths of the entries of the directory whose names match.
  The directory is given by its path and the names of its entries.
\<close>

definition path_glob :: "string \<Rightarrow> string list \<Rightarrow> string \<Rightarrow> string list" where
  "path_glob dir entries pattern =
     map (\<lambda>name. dir @ ''/'' @ name) (filter (glob_match pattern) entries)"

text \<open>
  \<^verbatim>\<open>list_images\<close>, lines 48 to 53: for each pattern in turn, the sorted matches are
  appended. Paths of one directory are ordered as their strings are.
\<close>

definition list_images :: "string \<Rightarrow> string list \<Rightarrow> string list" where
  "list_images images_dir entries =
     foldl (\<lambda>files ext. files @ sort (path_glob images_dir entries ext)) []
       [''*.jpg'', ''*.jpeg'', ''*.png'', ''*.bmp'']"

definition ends_with :: "string \<Rightarrow> string \<Rightarrow> bool" where
  "ends_with e s = (length e \<le> length s \<and> drop (length s - length e) s = e)"

definition has_image_ext :: "string \<Rightarrow> bool" where
  "has_image_ext name =
     (ends_with ''.jpg'' name \<or> ends_with ''.jpeg'' name \<or> ends_with ''.png'' name
      \<or> ends_with ''.bmp'' name)"

subsection \<open>The window\<close>

definition LABELS_DIR :: string where
  "LABELS_DIR = ''/home/jarred/git/Alien-Cave-Hunters/yolo_training/dataset/labels/train''"

definition IMAGES_DIR :: string where
  "IMAGES_DIR = ''/home/jarred/git/Alien-Cave-Hunters/yolo_training/dataset/images/train''"

text \<open>
  The attributes of \<^verbatim>\<open>LabelGUI\<close> that the handlers read and write. An image is
  represented by its size; the canvas rectangle by its four coordinates, \<open>None\<close> when there
  is no rectangle; the check boxes by the values of their variables. The label files are
  part of the state, since saving writes them and loading reads them; the label directory
  of the window holds regular files only. The widgets that only display text are left
  out.
\<close>

record gui =
  class_names :: "string list"
  images :: "string list"
  idx :: int
  orig_img :: "(int \<times> int) option"
  tk_img :: bool
  scale_x :: real
  scale_y :: real
  offset_x :: int
  offset_y :: int
  current_bbox_canvas :: "rect option"
  dragging :: bool
  start_xy :: "int \<times> int"
  end_xy :: "int \<times> int"
  selected_class_id :: "int option"
  class_vars :: "int list"
  label_files :: fs

text \<open>
  What the program takes from outside and does not change: the conversions \<^verbatim>\<open>int\<close> and
  \<^verbatim>\<open>float\<close>, the decoder of text files, and the size of the image that \<^verbatim>\<open>Image.open\<close>
  finds at a path, \<open>None\<close> when the image cannot be opened.
\<close>

record world =
  conv_int :: "py_str \<Rightarrow> int option"
  conv_float :: "py_str \<Rightarrow> real option"
  text_decode :: "string \<Rightarrow> py_str option"
  image_size :: "string \<Rightarrow> (int \<times> int) option"

text \<open>
  A method returns the state it leaves behind and the exception it raised, if any: what
  it assigned before raising stays assigned.
\<close>

type_synonym outcome = "gui \<times> py_error option"

text \<open>Indexing a Python list: a negative index counts from the end.\<close>

definition py_index :: "'a list \<Rightarrow> int \<Rightarrow> py_error + 'a" where
  "py_index xs i =
     (if 0 \<le> i \<and> i < int (length xs) then Inr (xs ! nat i)
      else if - int (length xs) \<le> i \<and> i < 0 then Inr (xs ! nat (int (length xs) + i))
      else Inl IndexError)"

text \<open>
  \<^verbatim>\<open>on_class_toggle\<close>, lines 209 to 219. The check box \<open>i\<close> calls it after Tk has changed
  the variable of the box.
\<close>

definition on_class_toggle :: "gui \<Rightarrow> nat \<Rightarrow> py_error + gui" where
  "on_class_toggle g i =
     (if length (class_vars g) \<le> i then Inl IndexError
      else if class_vars g ! i = 1
        then Inr (g\<lparr>class_vars := map (\<lambda>(j, var). if j \<noteq> i then 0 else var)
                                      (enumerate 0 (class_vars g)),
                    selected_class_id := Some (int i)\<rparr>)
        else Inr (g\<lparr>selected_class_id := None\<rparr>))"

text \<open>\<^verbatim>\<open>set_selected_class\<close>, lines 221 to 224.\<close>

definition set_selected_class :: "gui \<Rightarrow> int option \<Rightarrow> gui" where
  "set_selected_class g class_id =
     g\<lparr>class_vars := map (\<lambda>(i, var). if class_id \<noteq> None \<and> Some (int i) = class_id then 1 else 0)
                          (enumerate 0 (class_vars g)),
       selected_class_id := class_id\<rparr>"

text \<open>
  A click on check box \<open>i\<close>: a \<^verbatim>\<open>ttk.Checkbutton\<close> sets its variable to 0 when it is 1 and
  to 1 otherwise, then runs its command.
\<close>

definition click_class :: "gui \<Rightarrow> nat \<Rightarrow> py_error + gui" where
  "click_class g i =
     (if length (class_vars g) \<le> i then Inl IndexError
      else on_class_toggle
             (g\<lparr>class_vars := (class_vars g)[i := (if class_vars g ! i = 1 then 0 else 1)]\<rparr>) i)"

text \<open>
  \<^verbatim>\<open>Path.stem\<close>: the last component of the path without its last suffix; a name that
  begins or ends with its only point has no suffix.
\<close>

definition path_name :: "string \<Rightarrow> string" where
  "path_name p = rev (takeWhile (\<lambda>c. c \<noteq> CHR ''/'') (rev p))"

definition path_stem :: "string \<Rightarrow> string" where
  "path_stem p =
     (let name = path_name p;
          after = length (takeWhile (\<lambda>c. c \<noteq> CHR ''.'') (rev name))
      in if 0 < after \<and> after + 1 < length name then take (length name - after - 1) name
         else name)"

text \<open>\<^verbatim>\<open>label_path_for\<close>, lines 275 and 276.\<close>

definition label_path_for :: "string \<Rightarrow> string" where
  "label_path_for img_path = LABELS_DIR @ ''/'' @ path_stem img_path @ ''.txt''"

text \<open>\<^verbatim>\<open>draw_or_update_bbox\<close>, lines 300 to 311, and \<^verbatim>\<open>clear_bbox\<close>, lines 313 to 317.\<close>

definition draw_or_update_bbox :: "gui \<Rightarrow> int \<times> int \<Rightarrow> int \<times> int \<Rightarrow> gui" where
  "draw_or_update_bbox g p1 p2 =
     (case p1 of (x1, y1) \<Rightarrow> case p2 of (x2, y2) \<Rightarrow>
        let x1 = max 0 (min x1 MAX_CANVAS_W);
            x2 = max 0 (min x2 MAX_CANVAS_W);
            y1 = max 0 (min y1 MAX_CANVAS_H);
            y2 = max 0 (min y2 MAX_CANVAS_H)
        in g\<lparr>current_bbox_canvas :=
               Some (real_of_int x1, real_of_int y1, real_of_int x2, real_of_int y2)\<rparr>)"

definition clear_bbox :: "gui \<Rightarrow> gui" where
  "clear_bbox g = g\<lparr>current_bbox_canvas := None\<rparr>"

text \<open>\<^verbatim>\<open>on_press\<close>, \<^verbatim>\<open>on_drag\<close> and \<^verbatim>\<open>on_release\<close>, lines 279 to 298.\<close>

definition on_press :: "gui \<Rightarrow> int \<times> int \<Rightarrow> gui" where
  "on_press g event =
     (if \<not> tk_img g then g
      else draw_or_update_bbox (g\<lparr>dragging := True, start_xy := event, end_xy := event\<rparr>)
             event event)"

definition on_drag :: "gui \<Rightarrow> int \<times> int \<Rightarrow> gui" where
  "on_drag g event =
     (if \<not> dragging g then g
      else draw_or_update_bbox (g\<lparr>end_xy := event\<rparr>) (start_xy g) event)"

definition on_release :: "gui \<Rightarrow> int \<times> int \<Rightarrow> gui" where
  "on_release g event =
     (if \<not> dragging g then g
      else draw_or_update_bbox (g\<lparr>dragging := False, end_xy := event\<rparr>) (start_xy g) event)"

text \<open>
  \<^verbatim>\<open>load_image\<close>, lines 234 to 250, for an image of non-zero size \<open>W\<close> by \<open>H\<close>: the scale
  that fits the canvas, the size of the image on the canvas, the offsets that centre it,
  and an empty canvas.
\<close>

definition fit_scale :: "int \<Rightarrow> int \<Rightarrow> real" where
  "fit_scale W H =
     min (min (real_of_int MAX_CANVAS_W / real_of_int W)
              (real_of_int MAX_CANVAS_H / real_of_int H)) 1"

definition fit_to_canvas :: "gui \<Rightarrow> int \<Rightarrow> int \<Rightarrow> gui" where
  "fit_to_canvas g W H =
     (let scale = fit_scale W H;
          disp_w = py_int (real_of_int W * scale);
          disp_h = py_int (real_of_int H * scale)
      in g\<lparr>scale_x := scale, scale_y := scale, tk_img := True,
            current_bbox_canvas := None,
            offset_x := (MAX_CANVAS_W - disp_w) div 2,
            offset_y := (MAX_CANVAS_H - disp_h) div 2\<rparr>)"

text \<open>
  \<^verbatim>\<open>load_image\<close>, lines 256 to 273: the label of the image, when there is one, is drawn
  and its class selected.
\<close>

definition show_label :: "world \<Rightarrow> gui \<Rightarrow> string \<Rightarrow> int \<Rightarrow> int \<Rightarrow> gui" where
  "show_label wd g img_path W H =
     (case yolo_load_label (conv_int wd) (conv_float wd) (text_decode wd)
             (regular_files (label_files g)) (label_path_for img_path) of
        None \<Rightarrow> g
      | Some (cid, box) \<Rightarrow>
         (case denormalize_box box (W, H) of (x1, y1, x2, y2) \<Rightarrow>
            set_selected_class
              (draw_or_update_bbox g
                 (to_display (offset_x g) (scale_x g) x1, to_display (offset_y g) (scale_y g) y1)
                 (to_display (offset_x g) (scale_x g) x2, to_display (offset_y g) (scale_y g) y2))
              (Some cid)))"

text \<open>
  \<^verbatim>\<open>load_image\<close>, lines 227 to 273. The index is assigned first (line 229); opening the
  image may fail, the division of line 235 raises on a zero size, and \<^verbatim>\<open>resize\<close> at
  line 241 raises \<open>ValueError\<close> when the width or the height on the canvas is below one
  pixel, after the two scales have been assigned.
\<close>

definition load_image :: "world \<Rightarrow> gui \<Rightarrow> int \<Rightarrow> outcome" where
  "load_image wd g i =
     (let g1 = g\<lparr>idx := max 0 (min i (int (length (images g)) - 1))\<rparr>
      in case py_index (images g1) (idx g1) of
           Inl e \<Rightarrow> (g1, Some e)
         | Inr img_path \<Rightarrow>
            (case image_size wd img_path of
               None \<Rightarrow> (g1, Some OSError)
             | Some (W, H) \<Rightarrow>
                 let g2 = g1\<lparr>orig_img := Some (W, H)\<rparr>
                 in if W = 0 \<or> H = 0 then (g2, Some ZeroDivisionError)
                    else if py_int (real_of_int W * fit_scale W H) < 1
                            \<or> py_int (real_of_int H * fit_scale W H) < 1
                    then (g2\<lparr>scale_x := fit_scale W H, scale_y := fit_scale W H\<rparr>,
                          Some ValueError)
                    else (show_label wd (fit_to_canvas g2 W H) img_path W H, None)))"

text \<open>\<^verbatim>\<open>prev_image\<close> and \<^verbatim>\<open>next_image\<close>, lines 320 to 326.\<close>

definition prev_image :: "world \<Rightarrow> gui \<Rightarrow> outcome" where
  "prev_image wd g = (if idx g > 0 then load_image wd g (idx g - 1) else (g, None))"

definition next_image :: "world \<Rightarrow> gui \<Rightarrow> outcome" where
  "next_image wd g =
     (if idx g < int (length (images g)) - 1 then load_image wd g (idx g + 1) else (g, None))"

text \<open>
  \<^verbatim>\<open>save_label\<close>, lines 328 to 362. The two warnings return without a change; the label
  is written by \<open>yolo_save_label\<close>, and the next image is loaded unless the current one is
  the last.
\<close>

definition save_label :: "world \<Rightarrow> gui \<Rightarrow> outcome" where
  "save_label wd g =
     (case selected_class_id g of
        None \<Rightarrow> (g, None)
      | Some cid \<Rightarrow>
     (case current_bbox_canvas g of
        None \<Rightarrow> (g, None)
      | Some (x1c0, y1c0, x2c0, y2c0) \<Rightarrow>
          let x1c = min x1c0 x2c0; x2c = max x1c0 x2c0;
              y1c = min y1c0 y2c0; y2c = max y1c0 y2c0
          in
     (case to_original (offset_x g) (scale_x g) x1c of Inl e \<Rightarrow> (g, Some e) | Inr x1i \<Rightarrow>
      case to_original (offset_y g) (scale_y g) y1c of Inl e \<Rightarrow> (g, Some e) | Inr y1i \<Rightarrow>
      case to_original (offset_x g) (scale_x g) x2c of Inl e \<Rightarrow> (g, Some e) | Inr x2i \<Rightarrow>
      case to_original (offset_y g) (scale_y g) y2c of Inl e \<Rightarrow> (g, Some e) | Inr y2i \<Rightarrow>
     (case orig_img g of
        None \<Rightarrow> (g, Some AttributeError)
      | Some (W, H) \<Rightarrow>
     (case py_index (images g) (idx g) of
        Inl e \<Rightarrow> (g, Some e)
      | Inr img_path \<Rightarrow>
     (case yolo_save_label (label_files g) (label_path_for img_path) cid
             (clamp_rect (x1i, y1i, x2i, y2i) (W, H)) (W, H) of
        Inl e \<Rightarrow> (g, Some e)
      | Inr written \<Rightarrow>
          let g' = g\<lparr>label_files := written\<rparr>
          in if idx g' < int (length (images g')) - 1 then load_image wd g' (idx g' + 1)
             else (g', None)))))))"

text \<open>
  \<^verbatim>\<open>LabelGUI.__init__\<close>, lines 112 to 141, for the class names read from the YAML file, the
  names found in the image directory and the label files found on disk. Without images
  the program exits; an exception of the first \<open>load_image\<close> ends the program too.
\<close>

definition new_gui :: "string list \<Rightarrow> string list \<Rightarrow> fs \<Rightarrow> gui" where
  "new_gui names imgs labels =
     \<lparr>class_names = names, images = imgs, idx = 0, orig_img = None, tk_img = False,
      scale_x = 1, scale_y = 1, offset_x = 0, offset_y = 0, current_bbox_canvas = None,
      dragging = False, start_xy = (0, 0), end_xy = (0, 0), selected_class_id = None,
      class_vars = map (\<lambda>_. 0) names, label_files = labels\<rparr>"

definition init_gui :: "world \<Rightarrow> string list \<Rightarrow> string list \<Rightarrow> fs \<Rightarrow> py_error + gui" where
  "init_gui wd names entries labels =
     (let imgs = list_images IMAGES_DIR entries
      in if imgs = [] then Inl SystemExit
         else case load_image wd (new_gui names imgs labels) 0 of
                (g, None) \<Rightarrow> Inr g
              | (g, Some e) \<Rightarrow> Inl e)"

text \<open>
  The calls that the bindings and buttons of lines 153 to 206 make, and a direct call of
  \<open>load_image\<close>. Tk reports an exception of a handler and goes on with the state the
  handler left.
\<close>

datatype action =
  Press int int
| Motion int int
| Release int int
| Click_class nat
| Clear_bbox
| Prev_image
| Next_image
| Save_label
| Load_image int

fun perform :: "world \<Rightarrow> gui \<Rightarrow> action \<Rightarrow> gui" where
  "perform wd g (Press x y) = on_press g (x, y)"
| "perform wd g (Motion x y) = on_drag g (x, y)"
| "perform wd g (Release x y) = on_release g (x, y)"
| "perform wd g (Click_class i) = (case click_class g i of Inl e \<Rightarrow> g | Inr g' \<Rightarrow> g')"
| "perform wd g Clear_bbox = clear_bbox g"
| "perform wd g Prev_image = fst (prev_image wd g)"
| "perform wd g Next_image = fst (next_image wd g)"
| "perform wd g Save_label = fst (save_label wd g)"
| "perform wd g (Load_image i) = fst (load_image wd g i)"

definition run :: "world \<Rightarrow> gui \<Rightarrow> action list \<Rightarrow> gui" where
  "run wd g acts = foldl (perform wd) g acts"

text \<open>
  The indices of the check boxes that are on, and the agreement of the selected class
  with them: no box when no class is selected, exactly the box of the selected class
  otherwise.
\<close>

definition active_flags :: "gui \<Rightarrow> nat list" where
  "active_flags g = filter (\<lambda>i. class_vars g ! i = 1) [0..<length (class_vars g)]"

definition selection_ok :: "gui \<Rightarrow> bool" where
  "selection_ok g =
     (case selected_class_id g of
        None \<Rightarrow> active_flags g = []
      | Some k \<Rightarrow> 0 \<le> k \<and> active_flags g = [nat k])"

text \<open>
  The condition under which \<open>save_label\<close> reaches line 359: a class and a rectangle are
  set, no division is by zero, and the index selects an image.
\<close>

definition save_succeeds :: "gui \<Rightarrow> bool" where
  "save_succeeds g =
     (selected_class_id g \<noteq> None \<and> current_bbox_canvas g \<noteq> None
      \<and> scale_x g \<noteq> 0 \<and> scale_y g \<noteq> 0
      \<and> (case orig_img g of None \<Rightarrow> False | Some (W, H) \<Rightarrow> W \<noteq> 0 \<and> H \<noteq> 0)
      \<and> - int (length (images g)) \<le> idx g \<and> idx g < int (length (images g)))"

subsection \<open>An example session\<close>

text \<open>
  Two classes and three images of 1000 by 500 pixels; no label has been written yet. The
  tables stand for \<^verbatim>\<open>int\<close> and \<^verbatim>\<open>float\<close> on the few tokens of the examples, and text
  files are read as ASCII. \<open>demo_ready\<close>
  is the window after the first image has been loaded, the second class chosen and a
  rectangle dragged from (200,200) to (400,400) on the canvas.
\<close>

definition demo_world :: world where
  "demo_world =
     \<lparr>conv_int = map_of [(cps ''1'', 1), (cps ''5'', 5)],
      conv_float = map_of [(cps ''0.5'', 1 / 2), (cps ''0.2'', 1 / 5)],
      text_decode = decode_ascii,
      image_size = (\<lambda>_. Some (1000, 500))\<rparr>"

definition demo_start :: gui where
  "demo_start = new_gui [''alien'', ''rock''] [''d/a.jpg'', ''d/b.jpg'', ''d/c.png''] Map.empty"

definition demo_ready :: gui where
  "demo_ready =
     \<lparr>class_names = [''alien'', ''rock''], images = [''d/a.jpg'', ''d/b.jpg'', ''d/c.png''],
      idx = 0, orig_img = Some (1000, 500), tk_img = True, scale_x = 1, scale_y = 1,
      offset_x = 140, offset_y = 150, current_bbox_canvas = Some (200, 200, 400, 400),
      dragging = False, start_xy = (200, 200), end_xy = (400, 400),
      selected_class_id = Some 1, class_vars = [0, 1], label_files = Map.empty\<rparr>"

section \<open>Properties\<close>

subsection \<open>The codec, one axis at a time\<close>

lemma normalize_box_axis:
  "W \<noteq> 0 \<Longrightarrow> H \<noteq> 0 \<Longrightarrow>
   normalize_box (x1, y1, x2, y2) (W, H) =
     (case axis x1 x2 W of (xl, xh) \<Rightarrow>
      case axis y1 y2 H of (yl, yh) \<Rightarrow>
        Inr ((xl + (xh - xl) / 2) / real_of_int W, (yl + (yh - yl) / 2) / real_of_int H,
             (xh - xl) / real_of_int W, (yh - yl) / real_of_int H))"
  by (simp add: normalize_box_def axis_def Let_def)

lemma normalize_box_zero_size:
  "W = 0 \<or> H = 0 \<Longrightarrow> normalize_box r (W, H) = Inl ZeroDivisionError"
  by (cases r) (auto simp: normalize_box_def Let_def split: prod.splits)

lemma axis_bounds:
  assumes "1 \<le> n" and "axis p q n = (lo, hi)"
  shows "0 \<le> lo \<and> lo \<le> hi \<and> hi \<le> real_of_int n"
  using assms by (auto simp: axis_def Let_def min_def max_def split: if_splits)

lemma axis_inside:
  assumes "0 \<le> p" "p < q" "q \<le> real_of_int n"
  shows "axis p q n = (min p (real_of_int n - 1), max 1 q)"
  using assms by (auto simp: axis_def Let_def min_def max_def)

lemma axis_inside_idem:
  assumes "0 \<le> p" "p < q" "q \<le> real_of_int n"
  shows "axis (min p (real_of_int n - 1)) (max 1 q) n = (min p (real_of_int n - 1), max 1 q)"
  using assms by (auto simp: axis_def Let_def min_def max_def)

lemma axis_swap_inner:
  assumes "1 \<le> p" "p \<le> real_of_int n - 1" "1 \<le> q" "q \<le> real_of_int n - 1"
  shows "axis p q n = axis q p n"
  using assms by (auto simp: axis_def Let_def min_def max_def)

lemma axis_point:
  assumes "1 \<le> n"
  shows "axis p p n =
     (if p \<le> 0 then (0, 1) else if real_of_int n \<le> p then (real_of_int n - 1, real_of_int n)
      else (min p (real_of_int n - 1), max 1 p))"
  using assms by (auto simp: axis_def Let_def min_def max_def)

lemma axis_width:
  assumes "1 \<le> n" "axis p q n = (lo, hi)"
  shows "0 \<le> (hi - lo) / real_of_int n
       \<and> (p = q \<and> (p \<le> 0 \<or> real_of_int n \<le> p) \<longrightarrow> 1 / real_of_int n \<le> (hi - lo) / real_of_int n)
       \<and> (p = q \<and> 1 \<le> p \<and> p \<le> real_of_int n - 1 \<longrightarrow> (hi - lo) / real_of_int n = 0)"
proof -
  have "lo \<le> hi" using axis_bounds [OF assms] by simp
  then have 1: "0 \<le> (hi - lo) / real_of_int n" using assms(1) by simp
  have 2: "1 / real_of_int n \<le> (hi - lo) / real_of_int n" if "p = q \<and> (p \<le> 0 \<or> real_of_int n \<le> p)"
    using that assms by (auto simp: axis_point split: if_splits)
  have 3: "(hi - lo) / real_of_int n = 0" if "p = q \<and> 1 \<le> p \<and> p \<le> real_of_int n - 1"
    using that assms by (auto simp: axis_point split: if_splits)
  from 1 2 3 show ?thesis by blast
qed

lemma denorm_lo:
  "n \<noteq> 0 \<Longrightarrow>
   ((lo + (hi - lo) / 2) / real_of_int n - (hi - lo) / real_of_int n / 2) * real_of_int n = lo"
  by (simp add: field_simps)

lemma denorm_hi:
  "n \<noteq> 0 \<Longrightarrow>
   ((lo + (hi - lo) / 2) / real_of_int n + (hi - lo) / real_of_int n / 2) * real_of_int n = hi"
  by (simp add: field_simps)

lemma normalize_box_eq:
  assumes "W \<noteq> 0" "H \<noteq> 0" "axis x1 x2 W = (xl, xh)" "axis y1 y2 H = (yl, yh)"
  shows "normalize_box (x1, y1, x2, y2) (W, H) =
     Inr ((xl + (xh - xl) / 2) / real_of_int W, (yl + (yh - yl) / 2) / real_of_int H,
          (xh - xl) / real_of_int W, (yh - yl) / real_of_int H)"
  using assms by (simp add: normalize_box_axis)

lemma denormalize_box_eq:
  assumes "W \<noteq> 0" "H \<noteq> 0"
  shows "denormalize_box ((xl + (xh - xl) / 2) / real_of_int W, (yl + (yh - yl) / 2) / real_of_int H,
          (xh - xl) / real_of_int W, (yh - yl) / real_of_int H) (W, H) = (xl, yl, xh, yh)"
  unfolding denormalize_box_def prod.case
  by (simp only: denorm_lo [OF assms(1)] denorm_hi [OF assms(1)]
      denorm_lo [OF assms(2)] denorm_hi [OF assms(2)])

lemma unit_frac:
  assumes "0 \<le> lo" "lo \<le> hi" "hi \<le> real_of_int n" "1 \<le> n"
  shows "0 \<le> (lo + (hi - lo) / 2) / real_of_int n \<and> (lo + (hi - lo) / 2) / real_of_int n \<le> 1
     \<and> 0 \<le> (hi - lo) / real_of_int n \<and> (hi - lo) / real_of_int n \<le> 1"
  using assms by (simp add: field_simps)

lemma clamp_rect_inside:
  assumes "0 \<le> x1" "x1 < x2" "x2 \<le> real_of_int W" "0 \<le> y1" "y1 < y2" "y2 \<le> real_of_int H"
  shows "clamp_rect (x1, y1, x2, y2) (W, H) =
           (min x1 (real_of_int W - 1), min y1 (real_of_int H - 1), max 1 x2, max 1 y2)"
  using assms by (simp add: clamp_rect_def min_def max_def)

text \<open>
  Away from the one-pixel border the order of the two \<open>x\<close> coordinates does not matter.
\<close>

lemma normalize_box_swap_inner:
  assumes "W \<noteq> 0" "H \<noteq> 0"
    and "1 \<le> x1" "x1 \<le> real_of_int W - 1" "1 \<le> x2" "x2 \<le> real_of_int W - 1"
  shows "normalize_box (x1, y1, x2, y2) (W, H) = normalize_box (x2, y1, x1, y2) (W, H)"
  using assms by (simp add: normalize_box_axis axis_swap_inner [of x1 W x2])

text \<open>The two end-to-end examples: an image of 1000 by 500, a drag between (100,100) and (300,400).\<close>

lemma end_to_end_forward:
  "normalize_box (100, 100, 300, 400) (1000, 500) = Inr (1 / 5, 1 / 2, 1 / 5, 3 / 5)"
  by (simp add: normalize_box_def Let_def)

lemma end_to_end_reverse:
  "normalize_box (300, 400, 100, 100) (1000, 500) = Inr (1 / 5, 1 / 2, 1 / 5, 3 / 5)"
  by (simp add: normalize_box_def Let_def)

subsection \<open>Round trip through the normalized record\<close>

text \<open>
  Claim C1, as amended. For a rectangle inside the image with positive width and height,
  normalizing and denormalizing returns the rectangle clamped as in lines 65 to 68:
  \<open>x1\<close> is lowered to \<open>W - 1\<close> and \<open>x2\<close> raised to \<open>1\<close> where they lie in the
  border pixel (likewise \<open>y\<close>). Every coordinate of the result is less than one pixel from
  the original; the result is the original when no coordinate lies in that border (so for
  every rectangle with integer coordinates); and normalizing the result gives the same
  record again.
\<close>

theorem denormalize_normalize_roundtrip:
  assumes "0 < W" and "0 < H"
    and "0 \<le> x1" and "x1 < x2" and "x2 \<le> real_of_int W"
    and "0 \<le> y1" and "y1 < y2" and "y2 \<le> real_of_int H"
  shows "\<exists>box. normalize_box (x1, y1, x2, y2) (W, H) = Inr box
      \<and> denormalize_box box (W, H) = clamp_rect (x1, y1, x2, y2) (W, H)
      \<and> rect_dist (denormalize_box box (W, H)) (x1, y1, x2, y2) < 1
      \<and> (x1 \<le> real_of_int W - 1 \<and> 1 \<le> x2 \<and> y1 \<le> real_of_int H - 1 \<and> 1 \<le> y2
            \<longrightarrow> denormalize_box box (W, H) = (x1, y1, x2, y2))
      \<and> normalize_box (denormalize_box box (W, H)) (W, H) = Inr box"
proof -
  let ?xl = "min x1 (real_of_int W - 1)" and ?xh = "max 1 x2"
  let ?yl = "min y1 (real_of_int H - 1)" and ?yh = "max 1 y2"
  have W0: "W \<noteq> 0" and H0: "H \<noteq> 0" using assms(1,2) by simp_all
  have ax: "axis x1 x2 W = (?xl, ?xh)" using assms(3-5) by (rule axis_inside)
  have ay: "axis y1 y2 H = (?yl, ?yh)" using assms(6-8) by (rule axis_inside)
  have ax': "axis ?xl ?xh W = (?xl, ?xh)" using assms(3-5) by (rule axis_inside_idem)
  have ay': "axis ?yl ?yh H = (?yl, ?yh)" using assms(6-8) by (rule axis_inside_idem)
  let ?box = "((?xl + (?xh - ?xl) / 2) / real_of_int W, (?yl + (?yh - ?yl) / 2) / real_of_int H,
          (?xh - ?xl) / real_of_int W, (?yh - ?yl) / real_of_int H)"
  have n: "normalize_box (x1, y1, x2, y2) (W, H) = Inr ?box"
    by (rule normalize_box_eq [OF W0 H0 ax ay])
  have d: "denormalize_box ?box (W, H) = (?xl, ?yl, ?xh, ?yh)"
    by (rule denormalize_box_eq [OF W0 H0])
  have c: "clamp_rect (x1, y1, x2, y2) (W, H) = (?xl, ?yl, ?xh, ?yh)"
    using assms(3-8) by (rule clamp_rect_inside)
  have dist: "rect_dist (?xl, ?yl, ?xh, ?yh) (x1, y1, x2, y2) < 1"
    unfolding rect_dist_def prod.case using assms(3-8) by (simp add: min_def max_def)
  have exact: "(?xl, ?yl, ?xh, ?yh) = (x1, y1, x2, y2)"
    if "x1 \<le> real_of_int W - 1 \<and> 1 \<le> x2 \<and> y1 \<le> real_of_int H - 1 \<and> 1 \<le> y2"
    using that by (simp add: min_def max_def)
  have again: "normalize_box (?xl, ?yl, ?xh, ?yh) (W, H) = Inr ?box"
    by (rule normalize_box_eq [OF W0 H0 ax' ay'])
  show ?thesis
    using n c dist exact again unfolding d [symmetric] by (intro exI [of _ ?box]) simp
qed

text \<open>
  The theorem at the rectangle (100,100,300,400) of a 1000 by 500 image: the round trip is
  exact there.
\<close>

theorem denormalize_normalize_roundtrip_witness:
  "(0::int) < 1000 \<and> (0::int) < 500 \<and> (0::real) \<le> 100 \<and> (100::real) < 300
   \<and> (300::real) \<le> real_of_int 1000 \<and> (0::real) \<le> 100 \<and> (100::real) < 400
   \<and> (400::real) \<le> real_of_int 500
   \<and> (\<exists>box. normalize_box (100, 100, 300, 400) (1000, 500) = Inr box
      \<and> denormalize_box box (1000, 500) = (100, 100, 300, 400))"
  using denormalize_normalize_roundtrip
    [where W = 1000 and H = 500 and ?x1.0 = 100 and ?x2.0 = 300 and ?y1.0 = 100 and ?y2.0 = 400]
  by auto

text \<open>
  Claim C1 as stated fails: the rectangle (9.5, 0, 10, 1) lies inside a 10 by 10 image and
  has positive width and height, yet the round trip returns (9, 0, 10, 1), in exact
  arithmetic.
\<close>

theorem roundtrip_exact_counterexample:
  "in_image (19 / 2, 0, 10, 1) (10, 10)
   \<and> normalize_box (19 / 2, 0, 10, 1) (10, 10) = Inr (19 / 20, 1 / 20, 1 / 10, 1 / 10)
   \<and> denormalize_box (19 / 20, 1 / 20, 1 / 10, 1 / 10) (10, 10) = (9, 0, 10, 1)
   \<and> (9::real) \<noteq> 19 / 2"
  by (simp add: in_image_def normalize_box_def denormalize_box_def Let_def)

subsection \<open>Drag direction\<close>

text \<open>
  Claim C2. The clamp of lines 65 to 68 treats the first and the second \<open>x\<close> coordinate
  differently and runs before the ordering of lines 71 to 74, so the rectangle
  (0,0,5,5) and its \<open>x\<close>-swapped form (5,0,0,5) give different records on a 10 by 10
  image: width 1/2 and centre 1/4 against width 2/5 and centre 3/10.
\<close>

theorem normalize_box_swap_diverges:
  "normalize_box (0, 0, 5, 5) (10, 10) = Inr (1 / 4, 1 / 4, 1 / 2, 1 / 2)
   \<and> normalize_box (5, 0, 0, 5) (10, 10) = Inr (3 / 10, 1 / 4, 2 / 5, 1 / 2)"
  by (simp add: normalize_box_def Let_def)

subsection \<open>Degenerate rectangles\<close>

text \<open>
  Claim C3, as amended. For positive \<open>W\<close> and \<open>H\<close> the width and height of the record are
  never negative. A rectangle of zero width at \<open>x\<close> gets a width of at least \<open>1/W\<close> when
  \<open>x\<close> is on or beyond the left or right edge (\<open>x \<le> 0\<close> or \<open>W \<le> x\<close>), and keeps the
  width zero when \<open>1 \<le> x \<le> W - 1\<close>; likewise for the height.
\<close>

theorem degenerate_width:
  assumes "0 < W" and "0 < H"
  shows "\<exists>cx cy w h. normalize_box (x1, y1, x2, y2) (W, H) = Inr (cx, cy, w, h)
      \<and> 0 \<le> w \<and> 0 \<le> h
      \<and> (x1 = x2 \<and> (x1 \<le> 0 \<or> real_of_int W \<le> x1) \<longrightarrow> 1 / real_of_int W \<le> w)
      \<and> (y1 = y2 \<and> (y1 \<le> 0 \<or> real_of_int H \<le> y1) \<longrightarrow> 1 / real_of_int H \<le> h)
      \<and> (x1 = x2 \<and> 1 \<le> x1 \<and> x1 \<le> real_of_int W - 1 \<longrightarrow> w = 0)
      \<and> (y1 = y2 \<and> 1 \<le> y1 \<and> y1 \<le> real_of_int H - 1 \<longrightarrow> h = 0)"
proof -
  obtain xl xh where ax: "axis x1 x2 W = (xl, xh)" by (cases "axis x1 x2 W") auto
  obtain yl yh where ay: "axis y1 y2 H = (yl, yh)" by (cases "axis y1 y2 H") auto
  have W0: "W \<noteq> 0" and H0: "H \<noteq> 0" using assms by simp_all
  have W1: "1 \<le> W" and H1: "1 \<le> H" using assms by simp_all
  note n = normalize_box_eq [OF W0 H0 ax ay]
  note wx = axis_width [OF W1 ax]
  note wy = axis_width [OF H1 ay]
  let ?w = "(xh - xl) / real_of_int W" and ?h = "(yh - yl) / real_of_int H"
  have "normalize_box (x1, y1, x2, y2) (W, H)
          = Inr ((xl + (xh - xl) / 2) / real_of_int W, (yl + (yh - yl) / 2) / real_of_int H, ?w, ?h)
      \<and> 0 \<le> ?w \<and> 0 \<le> ?h
      \<and> (x1 = x2 \<and> (x1 \<le> 0 \<or> real_of_int W \<le> x1) \<longrightarrow> 1 / real_of_int W \<le> ?w)
      \<and> (y1 = y2 \<and> (y1 \<le> 0 \<or> real_of_int H \<le> y1) \<longrightarrow> 1 / real_of_int H \<le> ?h)
      \<and> (x1 = x2 \<and> 1 \<le> x1 \<and> x1 \<le> real_of_int W - 1 \<longrightarrow> ?w = 0)
      \<and> (y1 = y2 \<and> 1 \<le> y1 \<and> y1 \<le> real_of_int H - 1 \<longrightarrow> ?h = 0)"
    using n wx wy by blast
  then show ?thesis by blast
qed

text \<open>
  The theorem at the point (0,3) of a 10 by 10 image: the zero width on the left edge
  becomes 1/10, the zero height inside the image stays zero.
\<close>

theorem degenerate_width_witness:
  "(0::int) < 10 \<and> (0::int) < 10
   \<and> (\<exists>cx cy w h. normalize_box (0, 3, 0, 3) (10, 10) = Inr (cx, cy, w, h)
         \<and> 1 / 10 \<le> w \<and> h = 0)"
  using degenerate_width
    [where W = 10 and H = 10 and ?x1.0 = 0 and ?x2.0 = 0 and ?y1.0 = 3 and ?y2.0 = 3]
  by auto

text \<open>
  Claim C3 as stated fails: a click at (5,5) in a 10 by 10 image, a rectangle of zero width
  and height, is written with width and height zero, below the one pixel 1/10.
\<close>

theorem degenerate_counterexample:
  "normalize_box (5, 5, 5, 5) (10, 10) = Inr (1 / 2, 1 / 2, 0, 0) \<and> \<not> (1 / 10 \<le> (0::real))"
  by (simp add: normalize_box_def Let_def)

subsection \<open>Range of the record\<close>

text \<open>
  Claim C4. For every rectangle and positive \<open>W\<close>, \<open>H\<close>, \<open>cx\<close>, \<open>cy\<close>, \<open>w\<close> and \<open>h\<close> of the
  record lie in [0,1], and the corners of the denormalized record lie in [0,W] and [0,H].
\<close>

theorem normalize_box_in_unit_range:
  assumes "0 < W" and "0 < H"
  shows "\<exists>box. normalize_box r (W, H) = Inr box \<and> unit_box box
           \<and> in_image (denormalize_box box (W, H)) (W, H)"
proof -
  obtain x1 y1 x2 y2 where r: "r = (x1, y1, x2, y2)" by (cases r) auto
  obtain xl xh where ax: "axis x1 x2 W = (xl, xh)" by (cases "axis x1 x2 W") auto
  obtain yl yh where ay: "axis y1 y2 H = (yl, yh)" by (cases "axis y1 y2 H") auto
  have W0: "W \<noteq> 0" and H0: "H \<noteq> 0" using assms by simp_all
  have bx: "0 \<le> xl \<and> xl \<le> xh \<and> xh \<le> real_of_int W"
    using assms(1) ax by (intro axis_bounds) simp_all
  have by': "0 \<le> yl \<and> yl \<le> yh \<and> yh \<le> real_of_int H"
    using assms(2) ay by (intro axis_bounds) simp_all
  let ?box = "((xl + (xh - xl) / 2) / real_of_int W, (yl + (yh - yl) / 2) / real_of_int H,
          (xh - xl) / real_of_int W, (yh - yl) / real_of_int H)"
  have n: "normalize_box r (W, H) = Inr ?box"
    unfolding r by (rule normalize_box_eq [OF W0 H0 ax ay])
  have d: "denormalize_box ?box (W, H) = (xl, yl, xh, yh)"
    by (rule denormalize_box_eq [OF W0 H0])
  have ux: "0 \<le> (xl + (xh - xl) / 2) / real_of_int W \<and> (xl + (xh - xl) / 2) / real_of_int W \<le> 1
     \<and> 0 \<le> (xh - xl) / real_of_int W \<and> (xh - xl) / real_of_int W \<le> 1"
    using bx assms(1) by (intro unit_frac) simp_all
  have uy: "0 \<le> (yl + (yh - yl) / 2) / real_of_int H \<and> (yl + (yh - yl) / 2) / real_of_int H \<le> 1
     \<and> 0 \<le> (yh - yl) / real_of_int H \<and> (yh - yl) / real_of_int H \<le> 1"
    using by' assms(2) by (intro unit_frac) simp_all
  have u: "unit_box ?box"
    unfolding unit_box_def prod.case using ux uy by blast
  have i: "in_image (xl, yl, xh, yh) (W, H)"
    unfolding in_image_def prod.case using bx by' by linarith
  from n u i d show ?thesis by (intro exI [of _ ?box]) simp
qed

text \<open>
  The theorem at a rectangle that leaves a 1000 by 500 image on all four sides.
\<close>

theorem normalize_box_in_unit_range_witness:
  "(0::int) < 1000 \<and> (0::int) < 500 \<and>
   (\<exists>box. normalize_box (- 50, - 20, 2000, 900) (1000, 500) = Inr box \<and> unit_box box
           \<and> in_image (denormalize_box box (1000, 500)) (1000, 500))"
  using normalize_box_in_unit_range [of 1000 500 "(- 50, - 20, 2000, 900)"] by simp

subsection \<open>Round trip through the canvas\<close>

lemma py_int_close: "\<bar>real_of_int (py_int x) - x\<bar> < 1"
  unfolding py_int_def by (simp; linarith)

lemma py_int_le: "0 \<le> x \<Longrightarrow> real_of_int (py_int x) \<le> x"
  by (simp add: py_int_def)

text \<open>
  Claim C5, as amended. For a scale in (0,1] and any integer offset, a coordinate \<open>p\<close>
  mapped to the canvas and back is recovered within \<open>1/scale\<close> pixels of the original
  image (less than one canvas pixel), from below when \<open>p\<close> is not negative; within one
  pixel when the scale is 1.
\<close>

theorem display_roundtrip:
  assumes "0 < scale" and "scale \<le> 1"
  shows "\<exists>q. to_original offset scale (real_of_int (to_display offset scale p)) = Inr q
           \<and> \<bar>q - p\<bar> < 1 / scale \<and> (0 \<le> p \<longrightarrow> q \<le> p) \<and> (scale = 1 \<longrightarrow> \<bar>q - p\<bar> < 1)"
proof -
  define t where "t = py_int (p * scale)"
  define q where "q = real_of_int t / scale"
  have eq: "to_original offset scale (real_of_int (to_display offset scale p)) = Inr q"
    using assms(1) by (simp add: to_original_def to_display_def t_def q_def)
  have "\<bar>real_of_int t - p * scale\<bar> < 1"
    unfolding t_def by (rule py_int_close)
  then have "\<bar>real_of_int t - p * scale\<bar> / scale < 1 / scale"
    using assms(1) by (simp add: divide_strict_right_mono)
  moreover have "\<bar>real_of_int t - p * scale\<bar> / scale = \<bar>q - p\<bar>"
  proof -
    have "q - p = (real_of_int t - p * scale) / scale"
      using assms(1) by (simp add: q_def field_simps)
    then show ?thesis using assms(1) by (simp add: abs_divide)
  qed
  ultimately have close: "\<bar>q - p\<bar> < 1 / scale" by simp
  have le: "q \<le> p" if "0 \<le> p"
  proof -
    have "0 \<le> p * scale" using that assms(1) by simp
    then have "real_of_int t \<le> p * scale" unfolding t_def by (rule py_int_le)
    then show ?thesis using assms(1) by (simp add: q_def field_simps)
  qed
  from eq close le show ?thesis by auto
qed

text \<open>
  The theorem at the scale 1/4 and offset 150 of a 5120 by 2000 image, for the pixel 3:
  it comes back as 0.
\<close>

theorem display_roundtrip_witness:
  "(0::real) < 1 / 4 \<and> (1::real) / 4 \<le> 1
   \<and> to_original 150 (1 / 4) (real_of_int (to_display 150 (1 / 4) 3)) = Inr 0
   \<and> \<bar>(0::real) - 3\<bar> < 1 / (1 / 4)"
  using display_roundtrip [of "1 / 4" 150 3]
  by (simp add: to_display_def to_original_def py_int_def)

text \<open>
  Claim C5 as stated fails at the same input: the pixel 3 is shown at canvas position 150
  and mapped back to 0, three pixels away.
\<close>

theorem display_roundtrip_counterexample:
  "to_display 150 (1 / 4) 3 = 150
   \<and> to_original 150 (1 / 4) (real_of_int 150) = Inr 0
   \<and> \<not> \<bar>(0::real) - 3\<bar> \<le> 1"
  by (simp add: to_display_def to_original_def py_int_def)


subsection \<open>Digits and fields\<close>

lemma fixed_digits_6:
  "fixed_digits 6 n =
     [digit_char (n div 10 div 10 div 10 div 10 div 10 mod 10),
      digit_char (n div 10 div 10 div 10 div 10 mod 10),
      digit_char (n div 10 div 10 div 10 mod 10),
      digit_char (n div 10 div 10 mod 10),
      digit_char (n div 10 mod 10),
      digit_char (n mod 10)]"
proof -
  have six: "(6::nat) = Suc (Suc (Suc (Suc (Suc (Suc 0)))))" by simp
  show ?thesis unfolding six fixed_digits.simps by simp
qed

lemma digits_small: "n < 10 \<Longrightarrow> digits n = [digit_char n]"
  by (simp add: digits.simps)

lemma digits_step: "10 \<le> n \<Longrightarrow> digits n = digits (n div 10) @ [digit_char (n mod 10)]"
  by (subst digits.simps) simp

lemma is_digit_digit_char: "d < 10 \<Longrightarrow> is_digit (digit_char d)"
proof -
  assume "d < 10"
  then have "d \<in> {0, 1, 2, 3, 4, 5, 6, 7, 8, 9}" by auto
  then show ?thesis by (auto simp: is_digit_def digit_char_def)
qed

lemma digits_all: "list_all is_digit (digits n)"
proof (induction n rule: digits.induct)
  case (1 n)
  show ?case
  proof (cases "n < 10")
    case True
    then show ?thesis by (simp add: digits_small is_digit_digit_char)
  next
    case False
    then show ?thesis using 1 by (simp add: digits_step is_digit_digit_char)
  qed
qed

lemma digits_nonempty: "digits n \<noteq> []"
  by (subst digits.simps) simp

lemma fixed_digits_all: "list_all is_digit (fixed_digits k n)"
  by (induction k arbitrary: n) (simp_all add: is_digit_digit_char)

lemma length_fixed_digits: "length (fixed_digits k n) = k"
  by (induction k arbitrary: n) simp_all

lemma is_digit_not_space: "is_digit c \<Longrightarrow> \<not> is_space c"
  by (auto simp: is_digit_def is_space_def is_space_cp_def)

lemma is_digit_not_dot: "is_digit c \<Longrightarrow> c \<noteq> CHR ''.''"
  by (auto simp: is_digit_def)

lemma is_digit_not_minus: "is_digit c \<Longrightarrow> c \<noteq> CHR ''-''"
  by (auto simp: is_digit_def)

lemma int_literal_str_int: "int_literal (str_int i)"
proof (cases "i < 0")
  case True
  then show ?thesis by (simp add: int_literal_def str_int_def digits_all digits_nonempty)
next
  case False
  obtain c cs where d: "digits (nat i) = c # cs"
    using digits_nonempty [of "nat i"] by (cases "digits (nat i)") auto
  have all: "list_all is_digit (c # cs)" using digits_all [of "nat i"] d by simp
  then have "c \<noteq> CHR ''-''" by (simp add: is_digit_not_minus)
  with False d all show ?thesis by (simp add: int_literal_def str_int_def)
qed

lemma six_decimals_body:
  assumes "list_all is_digit ip" "ip \<noteq> []" "list_all is_digit fp" "length fp = 6"
  shows "six_decimals (ip @ ''.'' @ fp)" and "six_decimals (''-'' @ ip @ ''.'' @ fp)"
proof -
  have nd: "\<not> is_digit CHR ''.''" by (simp add: is_digit_def)
  have hd_ip: "hd ip \<noteq> CHR ''-''"
    using assms(1,2) by (cases ip) (auto simp: is_digit_not_minus)
  have tw: "takeWhile is_digit (ip @ CHR ''.'' # fp) = ip"
    using assms(1) nd by (simp add: takeWhile_append2 list_all_iff)
  have dw: "dropWhile is_digit (ip @ CHR ''.'' # fp) = CHR ''.'' # fp"
    using assms(1) nd by (simp add: dropWhile_append2 list_all_iff)
  show "six_decimals (ip @ ''.'' @ fp)"
    using assms hd_ip tw dw nd by (simp add: six_decimals_def Let_def)
  show "six_decimals (''-'' @ ip @ ''.'' @ fp)"
    using assms tw dw nd by (simp add: six_decimals_def Let_def)
qed

lemma six_decimals_format_6f: "six_decimals (format_6f x)"
proof -
  define m where "m = nat (round_half_even (\<bar>x\<bar> * 10 ^ 6))"
  have eq: "format_6f x = (if x < 0 then ''-'' else []) @ digits (m div 10 ^ 6) @ ''.''
              @ fixed_digits 6 (m mod 10 ^ 6)"
    by (simp add: format_6f_def m_def Let_def)
  show ?thesis
    unfolding eq using six_decimals_body [of "digits (m div 10 ^ 6)" "fixed_digits 6 (m mod 10 ^ 6)"]
    by (simp add: digits_all digits_nonempty fixed_digits_all length_fixed_digits)
qed

lemma field_char_not_space: "field_char c \<Longrightarrow> \<not> is_space c"
  by (auto simp: field_char_def is_digit_def is_space_def is_space_cp_def)

lemma field_str_int: "list_all field_char (str_int i)"
  using digits_all [of "nat i"] digits_all [of "nat (- i)"]
  by (auto simp: str_int_def list_all_iff field_char_def)

lemma field_format_6f: "list_all field_char (format_6f x)"
  using digits_all fixed_digits_all
  by (auto simp: format_6f_def Let_def list_all_iff field_char_def)

lemma str_int_nonempty: "str_int i \<noteq> []"
  by (simp add: str_int_def digits_nonempty)

lemma format_6f_nonempty: "format_6f x \<noteq> []"
  by (simp add: format_6f_def Let_def)

lemma split_from_token:
  "list_all field_char t \<Longrightarrow> split_from tok (t @ rest) = split_from (tok @ t) rest"
  by (induction t arbitrary: tok) (simp_all add: field_char_not_space)

lemma split_from_field:
  assumes "list_all field_char t" "t \<noteq> []" "is_space c"
  shows "split_from [] (t @ c # rest) = t # split_from [] rest"
  using assms by (simp add: split_from_token)

subsection \<open>The written line\<close>

lemma yolo_save_label_line:
  "yolo_save_label files p cid r sz =
     (case normalize_box r sz of Inl e \<Rightarrow> Inl e | Inr box \<Rightarrow> Inr (files(p \<mapsto> label_line cid box)))"
  by (auto simp: yolo_save_label_def label_line_def split: sum.splits prod.splits)

lemma space_is_space: "is_space CHR '' ''" and newline_is_space: "is_space (CHR 0x0A)"
  by (simp_all add: is_space_def is_space_cp_def)

lemma split_ws_label_line:
  "split_ws (label_line cid (cx, cy, w, h)) =
     [str_int cid, format_6f cx, format_6f cy, format_6f w, format_6f h]"
proof -
  have 1: "split_from [] (format_6f h @ [CHR 0x0A]) = [format_6f h]"
    using split_from_field [OF field_format_6f format_6f_nonempty newline_is_space, of h "[]"]
    by simp
  have 2: "split_from [] (format_6f v @ CHR '' '' # rest) = format_6f v # split_from [] rest"
    for v rest
    by (rule split_from_field [OF field_format_6f format_6f_nonempty space_is_space])
  have 3: "split_from [] (str_int cid @ CHR '' '' # rest) = str_int cid # split_from [] rest"
    for rest
    by (rule split_from_field [OF field_str_int str_int_nonempty space_is_space])
  show ?thesis
    by (simp add: split_ws_def label_line_def 1 2 3)
qed

lemma newline_not_field: "\<not> field_char (CHR 0x0A)"
  by (simp add: field_char_def is_digit_def)

lemma count_newline_field: "list_all field_char s \<Longrightarrow> count_list s (CHR 0x0A) = 0"
  using newline_not_field by (auto simp: list_all_iff)

lemma count_newline_label_line: "count_list (label_line cid (cx, cy, w, h)) (CHR 0x0A) = 1"
  by (simp add: label_line_def count_newline_field field_str_int field_format_6f)

lemma last_label_line: "last (label_line cid (cx, cy, w, h)) = CHR 0x0A"
  by (simp add: label_line_def)

text \<open>
  Claim C7. A save on an image of non-zero size puts at the label path exactly one line:
  the class id as an integer literal, then \<open>cx\<close>, \<open>cy\<close>, \<open>w\<close> and \<open>h\<close> of the normalized
  record each with exactly six decimals, separated by single spaces (splitting the line
  at white space gives these five fields back) and ended by the only newline of the
  text. Whatever the file held before is replaced.
\<close>

theorem yolo_save_label_one_line:
  assumes "W \<noteq> 0" and "H \<noteq> 0"
  shows "\<exists>cx cy w h.
      normalize_box r (W, H) = Inr (cx, cy, w, h)
    \<and> yolo_save_label files p cid r (W, H) = Inr (files(p \<mapsto> label_line cid (cx, cy, w, h)))
    \<and> yolo_save_label (files(p \<mapsto> old)) p cid r (W, H)
        = Inr (files(p \<mapsto> label_line cid (cx, cy, w, h)))
    \<and> label_line cid (cx, cy, w, h)
        = str_int cid @ '' '' @ format_6f cx @ '' '' @ format_6f cy @ '' ''
          @ format_6f w @ '' '' @ format_6f h @ [CHR 0x0A]
    \<and> split_ws (label_line cid (cx, cy, w, h))
        = [str_int cid, format_6f cx, format_6f cy, format_6f w, format_6f h]
    \<and> int_literal (str_int cid)
    \<and> six_decimals (format_6f cx) \<and> six_decimals (format_6f cy)
    \<and> six_decimals (format_6f w) \<and> six_decimals (format_6f h)
    \<and> count_list (label_line cid (cx, cy, w, h)) (CHR 0x0A) = 1
    \<and> last (label_line cid (cx, cy, w, h)) = CHR 0x0A"
proof -
  obtain x1 y1 x2 y2 where r: "r = (x1, y1, x2, y2)" by (cases r) auto
  obtain xl xh where ax: "axis x1 x2 W = (xl, xh)" by (cases "axis x1 x2 W") auto
  obtain yl yh where ay: "axis y1 y2 H = (yl, yh)" by (cases "axis y1 y2 H") auto
  obtain cx cy w h where n: "normalize_box r (W, H) = Inr (cx, cy, w, h)"
    unfolding r using normalize_box_eq [OF assms ax ay] by blast
  have s1: "yolo_save_label files p cid r (W, H) = Inr (files(p \<mapsto> label_line cid (cx, cy, w, h)))"
    by (simp add: yolo_save_label_line n)
  have s2: "yolo_save_label (files(p \<mapsto> old)) p cid r (W, H)
        = Inr (files(p \<mapsto> label_line cid (cx, cy, w, h)))"
    by (simp add: yolo_save_label_line n)
  have l: "label_line cid (cx, cy, w, h)
        = str_int cid @ '' '' @ format_6f cx @ '' '' @ format_6f cy @ '' ''
          @ format_6f w @ '' '' @ format_6f h @ [CHR 0x0A]"
    by (simp add: label_line_def)
  from n s1 s2 l show ?thesis
    using split_ws_label_line [of cid cx cy w h] int_literal_str_int [of cid]
      six_decimals_format_6f count_newline_label_line [of cid cx cy w h]
      last_label_line [of cid cx cy w h]
    by blast
qed

lemma digit_chars:
  "digit_char 0 = CHR ''0''" "digit_char 1 = CHR ''1''" "digit_char 2 = CHR ''2''"
  "digit_char 3 = CHR ''3''" "digit_char 4 = CHR ''4''" "digit_char 5 = CHR ''5''"
  "digit_char 6 = CHR ''6''" "digit_char 7 = CHR ''7''" "digit_char 8 = CHR ''8''"
  "digit_char 9 = CHR ''9''"
  by (simp_all add: digit_char_def)

lemma format_6f_nonneg:
  "0 \<le> x \<Longrightarrow> format_6f x =
     digits (nat (round_half_even (x * 1000000)) div 1000000) @ ''.''
     @ fixed_digits 6 (nat (round_half_even (x * 1000000)) mod 1000000)"
  by (simp add: format_6f_def Let_def)

lemma example_fields:
  "format_6f (1 / 5) = ''0.200000''" "format_6f (1 / 2) = ''0.500000''"
  "format_6f (3 / 5) = ''0.600000''" "str_int 2 = ''2''"
  by (simp_all add: format_6f_nonneg round_half_even_def Let_def fixed_digits_6 digits_small
      digit_chars str_int_def)

text \<open>
  The theorem at the end-to-end example, class 2, over an older label for the same image.
\<close>

theorem yolo_save_label_one_line_witness:
  "(1000::int) \<noteq> 0 \<and> (500::int) \<noteq> 0
   \<and> yolo_save_label [''a.txt'' \<mapsto> ''0 0.1 0.1 0.1 0.1''] ''a.txt'' 2 (100, 100, 300, 400) (1000, 500)
       = Inr [''a.txt'' \<mapsto> ''2 0.200000 0.500000 0.200000 0.600000'' @ [CHR 0x0A]]"
proof -
  have "\<exists>cx cy w h.
      normalize_box (100, 100, 300, 400) (1000, 500) = Inr (cx, cy, w, h)
    \<and> yolo_save_label [''a.txt'' \<mapsto> ''0 0.1 0.1 0.1 0.1''] ''a.txt'' 2 (100, 100, 300, 400) (1000, 500)
        = Inr [''a.txt'' \<mapsto> label_line 2 (cx, cy, w, h)]"
    using yolo_save_label_one_line [where W = 1000 and H = 500 and r = "(100, 100, 300, 400)"
        and files = Map.empty and p = "''a.txt''" and cid = 2 and old = "''0 0.1 0.1 0.1 0.1''"]
    by fastforce
  then obtain cx cy w h where n: "normalize_box (100, 100, 300, 400) (1000, 500) = Inr (cx, cy, w, h)"
    and s: "yolo_save_label [''a.txt'' \<mapsto> ''0 0.1 0.1 0.1 0.1''] ''a.txt'' 2 (100, 100, 300, 400) (1000, 500)
        = Inr [''a.txt'' \<mapsto> label_line 2 (cx, cy, w, h)]"
    by blast
  from n have v: "cx = 1 / 5" "cy = 1 / 2" "w = 1 / 5" "h = 3 / 5"
    by (simp_all add: end_to_end_forward)
  show ?thesis
    using s unfolding v by (simp add: label_line_def example_fields)
qed

subsection \<open>Reading a label\<close>

lemma yolo_load_label_tokens:
  "yolo_load_label int_of float_of decode files p =
     (case files p of
        None \<Rightarrow> None
      | Some NoAccess \<Rightarrow> None
      | Some (File bytes) \<Rightarrow>
         (case decode bytes of
            None \<Rightarrow> None
          | Some content \<Rightarrow>
             (case first_line_tokens content of
                [t0, t1, t2, t3, t4] \<Rightarrow>
                  (case int_of t0 of None \<Rightarrow> None | Some cid \<Rightarrow>
                   case float_of t1 of None \<Rightarrow> None | Some cx \<Rightarrow>
                   case float_of t2 of None \<Rightarrow> None | Some cy \<Rightarrow>
                   case float_of t3 of None \<Rightarrow> None | Some w \<Rightarrow>
                   case float_of t4 of None \<Rightarrow> None | Some h \<Rightarrow> Some (cid, (cx, cy, w, h)))
              | _ \<Rightarrow> None)))"
proof (cases "files p")
  case None
  then show ?thesis by (simp add: yolo_load_label_def)
next
  case (Some n)
  show ?thesis
  proof (cases n)
    case NoAccess
    with Some show ?thesis by (simp add: yolo_load_label_def)
  next
    case (File bytes)
    show ?thesis
    proof (cases "decode bytes")
      case None
      with Some File show ?thesis by (simp add: yolo_load_label_def)
    next
      case content: (Some content)
      show ?thesis
      proof (cases "length (first_line_tokens content) = 5")
        case True
        then obtain t0 t1 t2 t3 t4
          where ts: "first_line_tokens content = [t0, t1, t2, t3, t4]"
          by (auto simp: length_Suc_conv eval_nat_numeral)
        show ?thesis
          using Some File content ts unfolding first_line_tokens_def
          by (simp add: yolo_load_label_def Let_def split: option.splits)
      next
        case False
        then have "(case first_line_tokens content of
                      [t0, t1, t2, t3, t4] \<Rightarrow> X t0 t1 t2 t3 t4 | _ \<Rightarrow> None) = None"
          for X :: "py_str \<Rightarrow> py_str \<Rightarrow> py_str \<Rightarrow> py_str \<Rightarrow> py_str
                      \<Rightarrow> (int \<times> ('a \<times> 'a \<times> 'a \<times> 'a)) option"
          by (auto split: list.splits)
        then show ?thesis
          using Some File content False unfolding first_line_tokens_def
          by (simp add: yolo_load_label_def Let_def)
      qed
    qed
  qed
qed

text \<open>
  A line parses when its tokens convert, and then the loader returns the converted
  values.
\<close>

lemma parses_as_record_iff:
  "parses_as_record int_of float_of ts \<longleftrightarrow>
     (\<exists>t0 t1 t2 t3 t4 cid cx cy w h. ts = [t0, t1, t2, t3, t4]
        \<and> int_of t0 = Some cid \<and> float_of t1 = Some cx \<and> float_of t2 = Some cy
        \<and> float_of t3 = Some w \<and> float_of t4 = Some h)"
  by (auto simp: parses_as_record_def split: list.splits)

text \<open>
  Claim C6, as amended. \<open>yolo_load_label\<close> returns \<open>None\<close> exactly when nothing exists at
  the path, or what exists there cannot be opened for reading, or the bytes of the file
  do not decode, or the tokens of the first line of the decoded text are not five tokens
  of which the first converts to an integer and the other four to floats. When they
  are, the five converted values are returned as they are, whatever their range.
\<close>

theorem yolo_load_label_none_iff:
  "(yolo_load_label int_of float_of decode files p = None
      \<longleftrightarrow> (files p = None \<or> files p = Some NoAccess
           \<or> (\<exists>bytes. files p = Some (File bytes)
                 \<and> (decode bytes = None
                      \<or> (\<exists>content. decode bytes = Some content
                            \<and> \<not> parses_as_record int_of float_of
                                  (first_line_tokens content))))))
   \<and> (\<forall>bytes content t0 t1 t2 t3 t4 cid cx cy w h.
         files p = Some (File bytes) \<and> decode bytes = Some content
         \<and> first_line_tokens content = [t0, t1, t2, t3, t4]
         \<and> int_of t0 = Some cid \<and> float_of t1 = Some cx \<and> float_of t2 = Some cy
         \<and> float_of t3 = Some w \<and> float_of t4 = Some h
         \<longrightarrow> yolo_load_label int_of float_of decode files p = Some (cid, (cx, cy, w, h)))"
proof (intro conjI allI impI)
  show "yolo_load_label int_of float_of decode files p = None
      \<longleftrightarrow> (files p = None \<or> files p = Some NoAccess
           \<or> (\<exists>bytes. files p = Some (File bytes)
                 \<and> (decode bytes = None
                      \<or> (\<exists>content. decode bytes = Some content
                            \<and> \<not> parses_as_record int_of float_of
                                  (first_line_tokens content)))))"
  proof (cases "files p")
    case None
    then show ?thesis by (simp add: yolo_load_label_tokens)
  next
    case (Some n)
    show ?thesis
    proof (cases n)
      case NoAccess
      with Some show ?thesis by (simp add: yolo_load_label_tokens)
    next
      case (File bytes)
      show ?thesis
      proof (cases "decode bytes")
        case None
        with Some File show ?thesis by (simp add: yolo_load_label_tokens)
      next
        case content: (Some content)
        have "yolo_load_label int_of float_of decode files p = None
                \<longleftrightarrow> \<not> parses_as_record int_of float_of (first_line_tokens content)"
          unfolding yolo_load_label_tokens parses_as_record_def
          using Some File content by (auto split: option.splits list.splits)
        with Some File content show ?thesis by simp
      qed
    qed
  qed
next
  fix bytes content t0 t1 t2 t3 t4 cid cx cy w h
  assume "files p = Some (File bytes) \<and> decode bytes = Some content
         \<and> first_line_tokens content = [t0, t1, t2, t3, t4]
         \<and> int_of t0 = Some cid \<and> float_of t1 = Some cx \<and> float_of t2 = Some cy
         \<and> float_of t3 = Some w \<and> float_of t4 = Some h"
  then show "yolo_load_label int_of float_of decode files p = Some (cid, (cx, cy, w, h))"
    unfolding yolo_load_label_tokens by simp
qed

lemma tokens_example:
  "first_line_tokens (cps (''7 2.5 -3 9 9'' @ [CHR 0x0A] @ ''rest''))
     = [cps ''7'', cps ''2.5'', cps ''-3'', cps ''9'', cps ''9'']"
  by (simp add: first_line_tokens_def py_split_def strip_def is_space_cp_def cps_def)

lemma tokens_short:
  "first_line_tokens (cps ''1 0.5 0.5'') = [cps ''1'', cps ''0.5'', cps ''0.5'']"
  by (simp add: first_line_tokens_def py_split_def strip_def is_space_cp_def cps_def)

lemma decode_ascii_example:
  "decode_ascii (''7 2.5 -3 9 9'' @ [CHR 0x0A] @ ''rest'')
     = Some (cps (''7 2.5 -3 9 9'' @ [CHR 0x0A] @ ''rest''))"
  "decode_ascii ''1 0.5 0.5'' = Some (cps ''1 0.5 0.5'')"
  by (simp_all add: decode_ascii_def)

text \<open>
  The example of a line with too few tokens, for any conversions, and a path at which
  there is nothing.
\<close>

lemma yolo_load_label_short_line:
  "yolo_load_label int_of float_of decode_ascii [p \<mapsto> File ''1 0.5 0.5''] p = None"
  by (simp add: yolo_load_label_tokens decode_ascii_example tokens_short)

lemma yolo_load_label_missing:
  "yolo_load_label int_of float_of decode Map.empty p = None"
  by (simp add: yolo_load_label_def)

text \<open>
  On a string of characters \<open>split_ws\<close> gives the tokens that \<open>py_split\<close> gives on its
  code points.
\<close>

lemma py_split_from_cps:
  "py_split_from (cps tok) (cps s) = map cps (split_from tok s)"
proof (induction s arbitrary: tok)
  case Nil
  then show ?case by (simp add: cps_def)
next
  case (Cons c s)
  have e: "cps [] = []" "cps (tok @ [c]) = cps tok @ [of_char c]"
    "cps (c # s) = of_char c # cps s" "cps tok = [] \<longleftrightarrow> tok = []"
    by (simp_all add: cps_def)
  show ?case
    unfolding e py_split_from.simps split_from.simps is_space_def
    using Cons.IH [of "[]"] Cons.IH [of "tok @ [c]"] by (simp add: e)
qed

lemma py_split_cps: "py_split (cps s) = map cps (split_ws s)"
  using py_split_from_cps [of "[]" s] by (simp add: py_split_def split_ws_def cps_def)

text \<open>
  The first line is read as Python reads it: a no-break space, code point 160, separates
  two tokens as a space does, and a carriage return ends the line.
\<close>

lemma tokens_no_break_space:
  "first_line_tokens (cps ''1 0.5 0.5'' @ [160] @ cps ''0.2 0.2'' @ [13] @ cps ''9'')
     = [cps ''1'', cps ''0.5'', cps ''0.5'', cps ''0.2'', cps ''0.2'']"
  by (simp add: first_line_tokens_def py_split_def strip_def is_space_cp_def cps_def)

text \<open>
  The theorem at a file whose first line holds the values 2.5, -3, 9 and 9, all outside
  [0,1], and at a path at which there is nothing. The conversions are given by tables.
\<close>

theorem yolo_load_label_none_iff_witness:
  "yolo_load_label (map_of [(cps ''7'', 7)])
      (map_of [(cps ''2.5'', 5 / 2), (cps ''-3'', - 3), (cps ''9'', 9 :: real)]) decode_ascii
      [''a.txt'' \<mapsto> File (''7 2.5 -3 9 9'' @ [CHR 0x0A] @ ''rest'')] ''a.txt''
     = Some (7, (5 / 2, - 3, 9, 9))
   \<and> yolo_load_label (map_of [(cps ''7'', 7)])
      (map_of [(cps ''2.5'', 5 / 2), (cps ''-3'', - 3), (cps ''9'', 9 :: real)]) decode_ascii
      [''a.txt'' \<mapsto> File (''7 2.5 -3 9 9'' @ [CHR 0x0A] @ ''rest'')] ''b.txt'' = None"
proof -
  let ?i = "map_of [(cps ''7'', 7 :: int)]"
  let ?f = "map_of [(cps ''2.5'', 5 / 2), (cps ''-3'', - 3), (cps ''9'', 9 :: real)]"
  let ?b = "''7 2.5 -3 9 9'' @ [CHR 0x0A] @ ''rest''"
  let ?fs = "[''a.txt'' \<mapsto> File ?b]"
  note t = yolo_load_label_none_iff [of ?i ?f decode_ascii ?fs]
  have c: "cps ''7'' \<noteq> cps ''2.5''" "cps ''2.5'' \<noteq> cps ''-3''" "cps ''2.5'' \<noteq> cps ''9''"
    "cps ''-3'' \<noteq> cps ''9''" "cps ''-3'' \<noteq> cps ''2.5''" "cps ''9'' \<noteq> cps ''2.5''"
    "cps ''9'' \<noteq> cps ''-3''"
    by (simp_all add: cps_def)
  have a: "yolo_load_label ?i ?f decode_ascii ?fs ''a.txt'' = Some (7, (5 / 2, - 3, 9, 9))"
    using t [of "''a.txt''", THEN conjunct2, rule_format,
        of ?b "cps ?b" "cps ''7''" "cps ''2.5''" "cps ''-3''" "cps ''9''" "cps ''9''"
          7 "5 / 2" "- 3" 9 9]
      decode_ascii_example(1) tokens_example c
    by simp
  have b: "yolo_load_label ?i ?f decode_ascii ?fs ''b.txt'' = None"
    using t [of "''b.txt''", THEN conjunct1] by simp
  from a b show ?thesis by simp
qed

text \<open>
  Claim C6 as stated fails: a file that exists and whose first line parses gives \<open>None\<close>
  when a later byte of it does not decode, here the bytes 255 and 254 on the second
  line, which neither ASCII nor UTF-8 accepts; and so does a directory at the path,
  which exists and has no first line.
\<close>

theorem yolo_load_label_counterexample:
  "[''a.txt'' \<mapsto> File (''1 0.5 0.5 0.2 0.2'' @ [CHR 0x0A, CHR 0xFF, CHR 0xFE])] ''a.txt'' \<noteq> None
   \<and> decode_ascii (''1 0.5 0.5 0.2 0.2'' @ [CHR 0x0A])
       = Some (cps (''1 0.5 0.5 0.2 0.2'' @ [CHR 0x0A]))
   \<and> parses_as_record (map_of [(cps ''1'', 1 :: int)])
       (map_of [(cps ''0.5'', 1 / 2), (cps ''0.2'', 1 / 5 :: real)])
       (first_line_tokens (cps (''1 0.5 0.5 0.2 0.2'' @ [CHR 0x0A])))
   \<and> yolo_load_label (map_of [(cps ''1'', 1 :: int)])
       (map_of [(cps ''0.5'', 1 / 2), (cps ''0.2'', 1 / 5 :: real)]) decode_ascii
       [''a.txt'' \<mapsto> File (''1 0.5 0.5 0.2 0.2'' @ [CHR 0x0A, CHR 0xFF, CHR 0xFE])] ''a.txt''
       = None
   \<and> [''d'' \<mapsto> NoAccess] ''d'' \<noteq> None
   \<and> yolo_load_label (map_of [(cps ''1'', 1 :: int)])
       (map_of [(cps ''0.5'', 1 / 2), (cps ''0.2'', 1 / 5 :: real)]) decode_ascii
       [''d'' \<mapsto> NoAccess] ''d'' = None"
proof -
  have t: "first_line_tokens (cps (''1 0.5 0.5 0.2 0.2'' @ [CHR 0x0A]))
             = [cps ''1'', cps ''0.5'', cps ''0.5'', cps ''0.2'', cps ''0.2'']"
    by (simp add: first_line_tokens_def py_split_def strip_def is_space_cp_def cps_def)
  have i: "map_of [(cps ''1'', 1 :: int)] (cps ''1'') = Some 1"
    by simp
  have f: "map_of [(cps ''0.5'', 1 / 2), (cps ''0.2'', 1 / 5 :: real)] (cps ''0.5'') = Some (1 / 2)"
    "map_of [(cps ''0.5'', 1 / 2), (cps ''0.2'', 1 / 5 :: real)] (cps ''0.2'') = Some (1 / 5)"
    by (simp_all add: cps_def)
  have 1: "decode_ascii (''1 0.5 0.5 0.2 0.2'' @ [CHR 0x0A])
             = Some (cps (''1 0.5 0.5 0.2 0.2'' @ [CHR 0x0A]))"
    by (simp add: decode_ascii_def)
  have 2: "parses_as_record (map_of [(cps ''1'', 1 :: int)])
             (map_of [(cps ''0.5'', 1 / 2), (cps ''0.2'', 1 / 5 :: real)])
             (first_line_tokens (cps (''1 0.5 0.5 0.2 0.2'' @ [CHR 0x0A])))"
    unfolding t parses_as_record_def list.case i f by simp
  have d: "decode_ascii (''1 0.5 0.5 0.2 0.2'' @ [CHR 0x0A, CHR 0xFF, CHR 0xFE]) = None"
    by (simp add: decode_ascii_def)
  have 3: "yolo_load_label i f decode_ascii
             [''a.txt'' \<mapsto> File (''1 0.5 0.5 0.2 0.2'' @ [CHR 0x0A, CHR 0xFF, CHR 0xFE])] ''a.txt''
             = None" for i :: "py_str \<Rightarrow> int option" and f :: "py_str \<Rightarrow> real option"
    using d by (simp add: yolo_load_label_def)
  have 4: "yolo_load_label i f decode_ascii [''d'' \<mapsto> NoAccess] ''d'' = None"
    for i :: "py_str \<Rightarrow> int option" and f :: "py_str \<Rightarrow> real option"
    by (simp add: yolo_load_label_def)
  from 1 2 3 4 show ?thesis by simp
qed


subsection \<open>The navigation sequence\<close>

lemma ends_with_iff: "ends_with e s \<longleftrightarrow> (\<exists>pre. s = pre @ e)"
proof
  assume "ends_with e s"
  then have "s = take (length s - length e) s @ e"
    by (metis append_take_drop_id ends_with_def)
  then show "\<exists>pre. s = pre @ e" ..
next
  assume "\<exists>pre. s = pre @ e"
  then show "ends_with e s" by (auto simp: ends_with_def)
qed

lemma glob_match_literal:
  "CHR ''*'' \<notin> set lit \<Longrightarrow> glob_match lit s \<longleftrightarrow> s = lit"
proof (induction lit arbitrary: s)
  case Nil
  then show ?case by (cases s) auto
next
  case (Cons p ps)
  then show ?case by (cases s) auto
qed

lemma glob_match_star:
  assumes "CHR ''*'' \<notin> set lit"
  shows "glob_match (CHR ''*'' # lit) s \<longleftrightarrow> ends_with lit s"
proof (induction s)
  case Nil
  show ?case using assms by (auto simp: glob_match_literal ends_with_iff)
next
  case (Cons c cs)
  have "(\<exists>pre. c # cs = pre @ lit) \<longleftrightarrow> c # cs = lit \<or> (\<exists>pre. cs = pre @ lit)"
    by (auto simp: Cons_eq_append_conv)
  then show ?case
    using Cons assms by (simp add: glob_match_literal ends_with_iff)
qed

text \<open>
  Claim C8, as amended. The navigation sequence consists of the entries of the image
  directory whose names end in \<open>.jpg\<close>, \<open>.jpeg\<close>, \<open>.png\<close> or \<open>.bmp\<close>, and of no others. It
  is grouped by extension in this order, and each group is in sorted path order.
\<close>

theorem list_images_grouped:
  "list_images d es =
       sort (map (\<lambda>n. d @ ''/'' @ n) (filter (ends_with ''.jpg'') es))
     @ sort (map (\<lambda>n. d @ ''/'' @ n) (filter (ends_with ''.jpeg'') es))
     @ sort (map (\<lambda>n. d @ ''/'' @ n) (filter (ends_with ''.png'') es))
     @ sort (map (\<lambda>n. d @ ''/'' @ n) (filter (ends_with ''.bmp'') es))
   \<and> set (list_images d es) = (\<lambda>n. d @ ''/'' @ n) ` {n \<in> set es. has_image_ext n}"
proof -
  have g: "path_glob d es (CHR ''*'' # lit) = map (\<lambda>n. d @ ''/'' @ n) (filter (ends_with lit) es)"
    if "CHR ''*'' \<notin> set lit" for lit
    using that by (simp add: path_glob_def glob_match_star cong: filter_cong)
  have 1: "list_images d es =
       sort (map (\<lambda>n. d @ ''/'' @ n) (filter (ends_with ''.jpg'') es))
     @ sort (map (\<lambda>n. d @ ''/'' @ n) (filter (ends_with ''.jpeg'') es))
     @ sort (map (\<lambda>n. d @ ''/'' @ n) (filter (ends_with ''.png'') es))
     @ sort (map (\<lambda>n. d @ ''/'' @ n) (filter (ends_with ''.bmp'') es))"
    unfolding list_images_def by (simp add: g)
  have 2: "set (list_images d es) = (\<lambda>n. d @ ''/'' @ n) ` {n \<in> set es. has_image_ext n}"
    unfolding 1 by (auto simp: has_image_ext_def)
  from 1 2 show ?thesis by simp
qed

text \<open>
  Claim C8 as stated fails: for a directory holding \<open>a.png\<close> and \<open>b.jpg\<close> the sequence
  is \<open>b.jpg\<close>, \<open>a.png\<close>, which is not sorted as a whole.
\<close>

theorem list_images_counterexample:
  "list_images ''d'' [''a.png'', ''b.jpg''] = [''d/b.jpg'', ''d/a.png'']
   \<and> \<not> sorted [''d/b.jpg'', ''d/a.png'']"
  by (simp add: list_images_def path_glob_def less_eq_char_def less_char_def)

subsection \<open>What the handlers leave unchanged\<close>

lemma draw_or_update_bbox_fields [simp]:
  "idx (draw_or_update_bbox g p1 p2) = idx g"
  "images (draw_or_update_bbox g p1 p2) = images g"
  "class_vars (draw_or_update_bbox g p1 p2) = class_vars g"
  "selected_class_id (draw_or_update_bbox g p1 p2) = selected_class_id g"
  "label_files (draw_or_update_bbox g p1 p2) = label_files g"
  by (simp_all add: draw_or_update_bbox_def Let_def split: prod.splits)

lemma set_selected_class_fields [simp]:
  "idx (set_selected_class g c) = idx g"
  "images (set_selected_class g c) = images g"
  "selected_class_id (set_selected_class g c) = c"
  "label_files (set_selected_class g c) = label_files g"
  "length (class_vars (set_selected_class g c)) = length (class_vars g)"
  by (simp_all add: set_selected_class_def)

lemma fit_to_canvas_fields [simp]:
  "idx (fit_to_canvas g W H) = idx g"
  "images (fit_to_canvas g W H) = images g"
  "class_vars (fit_to_canvas g W H) = class_vars g"
  "selected_class_id (fit_to_canvas g W H) = selected_class_id g"
  "label_files (fit_to_canvas g W H) = label_files g"
  by (simp_all add: fit_to_canvas_def Let_def)

lemma show_label_fields [simp]:
  "idx (show_label wd g p W H) = idx g"
  "images (show_label wd g p W H) = images g"
  "label_files (show_label wd g p W H) = label_files g"
  by (simp_all add: show_label_def split: option.splits prod.splits)

lemma load_image_idx:
  "idx (fst (load_image wd g i)) = max 0 (min i (int (length (images g)) - 1))"
  by (simp add: load_image_def Let_def split: sum.splits option.splits prod.splits)

lemma load_image_images [simp]: "images (fst (load_image wd g i)) = images g"
  by (simp add: load_image_def Let_def split: sum.splits option.splits prod.splits)

lemma load_image_label_files [simp]: "label_files (fst (load_image wd g i)) = label_files g"
  by (simp add: load_image_def Let_def split: sum.splits option.splits prod.splits)

lemma prev_image_idx:
  "idx (fst (prev_image wd g)) =
     (if 0 < idx g then max 0 (min (idx g - 1) (int (length (images g)) - 1)) else idx g)"
  by (simp add: prev_image_def load_image_idx)

lemma next_image_idx:
  "idx (fst (next_image wd g)) =
     (if idx g < int (length (images g)) - 1 then max 0 (idx g + 1) else idx g)"
  by (simp add: next_image_def load_image_idx)

lemma prev_image_images [simp]: "images (fst (prev_image wd g)) = images g"
  by (simp add: prev_image_def)

lemma next_image_images [simp]: "images (fst (next_image wd g)) = images g"
  by (simp add: next_image_def)

lemma save_label_images [simp]: "images (fst (save_label wd g)) = images g"
  by (simp add: save_label_def Let_def split: sum.splits option.splits prod.splits)

lemma save_label_idx_cases:
  "idx (fst (save_label wd g)) = idx g
   \<or> (idx g < int (length (images g)) - 1
       \<and> idx (fst (save_label wd g)) = max 0 (idx g + 1))"
  by (simp add: save_label_def Let_def load_image_idx split: sum.splits option.splits prod.splits)

subsection \<open>Navigation\<close>

lemma py_index_in_range:
  "0 \<le> i \<Longrightarrow> i < int (length xs) \<Longrightarrow> py_index xs i = Inr (xs ! nat i)"
  by (simp add: py_index_def Let_def)

lemma py_index_ok:
  "- int (length xs) \<le> i \<Longrightarrow> i < int (length xs) \<Longrightarrow> \<exists>x. py_index xs i = Inr x"
  by (auto simp: py_index_def Let_def)

lemma save_label_success:
  assumes "save_succeeds g"
  shows "\<exists>cid r W H p box.
           selected_class_id g = Some cid \<and> orig_img g = Some (W, H)
         \<and> py_index (images g) (idx g) = Inr p
         \<and> normalize_box r (W, H) = Inr box
         \<and> label_files (fst (save_label wd g)) (label_path_for p) = Some (label_line cid box)
         \<and> idx (fst (save_label wd g))
             = (if idx g < int (length (images g)) - 1 then max 0 (idx g + 1) else idx g)"
proof -
  from assms obtain cid x1c y1c x2c y2c W H where
    sel: "selected_class_id g = Some cid" and
    box: "current_bbox_canvas g = Some (x1c, y1c, x2c, y2c)" and
    sx: "scale_x g \<noteq> 0" and sy: "scale_y g \<noteq> 0" and
    img: "orig_img g = Some (W, H)" and W: "W \<noteq> 0" and H: "H \<noteq> 0" and
    lo: "- int (length (images g)) \<le> idx g" and hi: "idx g < int (length (images g))"
    by (auto simp: save_succeeds_def split: option.splits)
  obtain p where p: "py_index (images g) (idx g) = Inr p"
    using py_index_ok [OF lo hi] by blast
  define r where "r = clamp_rect
      ((min x1c x2c - real_of_int (offset_x g)) / scale_x g,
       (min y1c y2c - real_of_int (offset_y g)) / scale_y g,
       (max x1c x2c - real_of_int (offset_x g)) / scale_x g,
       (max y1c y2c - real_of_int (offset_y g)) / scale_y g) (W, H)"
  obtain a b c d where rr: "r = (a, b, c, d)" by (cases r) auto
  obtain xl xh where ax: "axis a c W = (xl, xh)" by (cases "axis a c W") auto
  obtain yl yh where ay: "axis b d H = (yl, yh)" by (cases "axis b d H") auto
  obtain bx where n: "normalize_box r (W, H) = Inr bx"
    unfolding rr using normalize_box_eq [OF W H ax ay] by blast
  have w: "yolo_save_label (label_files g) (label_path_for p) cid r (W, H)
             = Inr ((label_files g)(label_path_for p \<mapsto> label_line cid bx))"
    by (simp add: yolo_save_label_line n)
  have f: "label_files (fst (save_label wd g)) (label_path_for p) = Some (label_line cid bx)"
    using sel box sx sy img p w
    by (simp add: save_label_def Let_def to_original_def r_def)
  have i: "idx (fst (save_label wd g))
             = (if idx g < int (length (images g)) - 1 then max 0 (idx g + 1) else idx g)"
    using sel box sx sy img p w
    by (simp add: save_label_def Let_def to_original_def r_def load_image_idx)
  from sel img p n f i show ?thesis by blast
qed

lemma yolo_save_label_zero:
  "W = 0 \<or> H = 0 \<Longrightarrow> yolo_save_label fs p cid r (W, H) = Inl ZeroDivisionError"
  by (simp add: yolo_save_label_line normalize_box_zero_size)

lemma py_index_out:
  "\<not> (- int (length xs) \<le> i \<and> i < int (length xs)) \<Longrightarrow> py_index xs i = Inl IndexError"
  by (auto simp: py_index_def Let_def)

lemma save_label_no_success:
  assumes "\<not> save_succeeds g"
  shows "fst (save_label wd g) = g"
proof (cases "selected_class_id g")
  case None
  then show ?thesis by (simp add: save_label_def)
next
  case sel: (Some cid)
  show ?thesis
  proof (cases "current_bbox_canvas g")
    case None
    then show ?thesis using sel by (simp add: save_label_def)
  next
    case (Some bb)
    obtain x1c y1c x2c y2c where bb: "bb = (x1c, y1c, x2c, y2c)" by (cases bb) auto
    note box = Some [unfolded bb]
    show ?thesis
    proof (cases "scale_x g = 0")
      case True
      then show ?thesis using sel box by (simp add: save_label_def Let_def to_original_def)
    next
      case sx: False
      show ?thesis
      proof (cases "scale_y g = 0")
        case True
        then show ?thesis using sel box sx by (simp add: save_label_def Let_def to_original_def)
      next
        case sy: False
        show ?thesis
        proof (cases "orig_img g")
          case None
          then show ?thesis
            using sel box sx sy by (simp add: save_label_def Let_def to_original_def)
        next
          case (Some sz)
          obtain W H where sz: "sz = (W, H)" by (cases sz) auto
          note img = Some [unfolded sz]
          show ?thesis
          proof (cases "- int (length (images g)) \<le> idx g \<and> idx g < int (length (images g))")
            case False
            then have "py_index (images g) (idx g) = Inl IndexError" by (rule py_index_out)
            then show ?thesis
              using sel box sx sy img by (simp add: save_label_def Let_def to_original_def)
          next
            case True
            then obtain p where p: "py_index (images g) (idx g) = Inr p"
              using py_index_ok [of "images g" "idx g"] by blast
            from assms sel box sx sy img True have "W = 0 \<or> H = 0"
              by (auto simp: save_succeeds_def)
            then have "yolo_save_label fs q c r (W, H) = Inl ZeroDivisionError" for fs q c r
              by (rule yolo_save_label_zero)
            then show ?thesis
              using sel box sx sy img p by (simp add: save_label_def Let_def to_original_def)
          qed
        qed
      qed
    qed
  qed
qed


lemma handlers_fields [simp]:
  "idx (on_press g e) = idx g" "images (on_press g e) = images g"
  "class_vars (on_press g e) = class_vars g"
  "idx (on_drag g e) = idx g" "images (on_drag g e) = images g"
  "class_vars (on_drag g e) = class_vars g"
  "idx (on_release g e) = idx g" "images (on_release g e) = images g"
  "class_vars (on_release g e) = class_vars g"
  "idx (clear_bbox g) = idx g" "images (clear_bbox g) = images g"
  "class_vars (clear_bbox g) = class_vars g"
  by (simp_all add: on_press_def on_drag_def on_release_def clear_bbox_def)

lemma on_class_toggle_fields:
  "on_class_toggle g i = Inr g' \<Longrightarrow> idx g' = idx g \<and> images g' = images g"
  by (auto simp: on_class_toggle_def split: if_splits)

lemma click_class_fields:
  "click_class g i = Inr g' \<Longrightarrow> idx g' = idx g \<and> images g' = images g"
  by (auto simp: click_class_def dest!: on_class_toggle_fields split: if_splits)

lemma perform_images [simp]: "images (perform wd g a) = images g"
  by (cases a) (auto dest: click_class_fields split: sum.splits)

lemma perform_idx:
  assumes "images g \<noteq> []" "0 \<le> idx g" "idx g < int (length (images g))"
  shows "0 \<le> idx (perform wd g a) \<and> idx (perform wd g a) < int (length (images g))"
proof (cases a)
  case (Click_class i)
  then show ?thesis using assms by (auto dest: click_class_fields split: sum.splits)
next
  case Prev_image
  then show ?thesis using assms by (simp add: prev_image_idx)
next
  case Next_image
  then show ?thesis using assms by (simp add: next_image_idx)
next
  case Save_label
  then show ?thesis using assms save_label_idx_cases [of wd g] by auto
next
  case (Load_image i)
  then show ?thesis using assms by (simp add: load_image_idx)
qed (use assms in simp_all)

lemma run_images [simp]: "images (run wd g acts) = images g"
  unfolding run_def by (induction acts arbitrary: g) simp_all

lemma run_idx:
  assumes "images g \<noteq> []" "0 \<le> idx g" "idx g < int (length (images g))"
  shows "0 \<le> idx (run wd g acts) \<and> idx (run wd g acts) < int (length (images g))"
  using assms unfolding run_def
proof (induction acts arbitrary: g)
  case Nil
  then show ?case by simp
next
  case (Cons a acts)
  have "0 \<le> idx (perform wd g a) \<and> idx (perform wd g a) < int (length (images (perform wd g a)))"
    using perform_idx [OF Cons.prems] by simp
  moreover have "images (perform wd g a) \<noteq> []" using Cons.prems by simp
  ultimately have "0 \<le> idx (foldl (perform wd) (perform wd g a) acts)
      \<and> idx (foldl (perform wd) (perform wd g a) acts) < int (length (images (perform wd g a)))"
    using Cons.IH [of "perform wd g a"] by blast
  then show ?case by simp
qed

text \<open>
  Claim C9. Over a list of images that is not empty, and from an index within the list
  (the constructor starts at 0, \<open>init_gui_start\<close> below), every sequence of handler calls
  and of calls of \<open>load_image\<close> leaves the index within the list. \<open>load_image\<close> clamps
  its argument; \<open>prev_image\<close> goes back by one except at 0 and \<open>next_image\<close> forward by
  one except at the last image, where they change nothing; a save that succeeds goes
  forward by one except at the last image, and a save that does not succeed leaves the
  index as it is.
\<close>

theorem navigation_bounded:
  assumes "images g \<noteq> []" and "0 \<le> idx g" and "idx g < int (length (images g))"
  shows "images (run wd g acts) = images g
       \<and> 0 \<le> idx (run wd g acts) \<and> idx (run wd g acts) < int (length (images g))
       \<and> idx (fst (load_image wd g i)) = max 0 (min i (int (length (images g)) - 1))
       \<and> idx (fst (prev_image wd g)) = (if 0 < idx g then idx g - 1 else idx g)
       \<and> idx (fst (next_image wd g))
           = (if idx g < int (length (images g)) - 1 then idx g + 1 else idx g)
       \<and> (save_succeeds g \<longrightarrow>
            idx (fst (save_label wd g))
              = (if idx g < int (length (images g)) - 1 then idx g + 1 else idx g))
       \<and> (\<not> save_succeeds g \<longrightarrow> idx (fst (save_label wd g)) = idx g)"
proof -
  have s: "idx (fst (save_label wd g))
              = (if idx g < int (length (images g)) - 1 then idx g + 1 else idx g)"
    if "save_succeeds g"
    using save_label_success [OF that, of wd] assms by auto
  have n: "idx (fst (save_label wd g)) = idx g" if "\<not> save_succeeds g"
    using save_label_no_success [OF that] by simp
  show ?thesis
    using run_idx [OF assms, of wd acts] assms s n
    by (auto simp: load_image_idx prev_image_idx next_image_idx)
qed

lemma init_gui_start:
  assumes "init_gui wd names entries labels = Inr g"
  shows "idx g = 0 \<and> images g = list_images IMAGES_DIR entries \<and> images g \<noteq> []"
proof -
  let ?imgs = "list_images IMAGES_DIR entries"
  from assms have ne: "?imgs \<noteq> []"
    by (auto simp: init_gui_def Let_def split: if_splits)
  with assms have g: "g = fst (load_image wd (new_gui names ?imgs labels) 0)"
    by (auto simp: init_gui_def Let_def split: prod.splits option.splits)
  have "images (new_gui names ?imgs labels) = ?imgs" by (simp add: new_gui_def)
  then show ?thesis using ne unfolding g by (simp add: load_image_idx)
qed

lemma demo_ready_reached:
  "run demo_world demo_start [Load_image 0, Click_class 1, Press 200 200, Motion 300 250,
      Release 400 400] = demo_ready"
  by (simp add: run_def demo_start_def demo_world_def demo_ready_def new_gui_def
      load_image_def py_index_def fit_to_canvas_def fit_scale_def show_label_def
      yolo_load_label_def regular_files_def
      click_class_def on_class_toggle_def on_press_def on_drag_def on_release_def
      draw_or_update_bbox_def MAX_CANVAS_W_def MAX_CANVAS_H_def py_int_def Let_def
      enumerate_eq_zip)

text \<open>
  An image of 1 by 2000 pixels is scaled by 2/5 to a width of no pixel: \<open>load_image\<close>
  raises at line 241 and leaves the new scale with the old offsets.
\<close>

lemma load_image_thin:
  "load_image (demo_world\<lparr>image_size := (\<lambda>_. Some (1, 2000))\<rparr>) demo_start 0
     = (demo_start\<lparr>orig_img := Some (1, 2000), scale_x := 2 / 5, scale_y := 2 / 5\<rparr>,
        Some ValueError)"
  by (simp add: load_image_def demo_start_def new_gui_def py_index_def fit_scale_def
      MAX_CANVAS_W_def MAX_CANVAS_H_def py_int_def Let_def)

lemma demo_ready_facts:
  "images demo_ready \<noteq> []" "idx demo_ready = 0" "length (images demo_ready) = 3"
  "save_succeeds demo_ready" "class_vars demo_ready = [0, 1]"
  "selected_class_id demo_ready = Some 1"
  by (simp_all add: demo_ready_def save_succeeds_def)

lemma demo_ready_active: "active_flags demo_ready = [1]" "selection_ok demo_ready"
  by (simp_all add: active_flags_def selection_ok_def demo_ready_def upt_rec)


text \<open>
  The theorem at the example session, ready to save the first of three images.
\<close>

theorem navigation_bounded_witness:
  "images demo_ready \<noteq> [] \<and> 0 \<le> idx demo_ready
   \<and> idx demo_ready < int (length (images demo_ready)) \<and> save_succeeds demo_ready
   \<and> idx (fst (save_label demo_world demo_ready)) = 1
   \<and> idx (fst (prev_image demo_world demo_ready)) = 0
   \<and> idx (fst (load_image demo_world demo_ready 7)) = 2
   \<and> 0 \<le> idx (run demo_world demo_ready [Save_label, Next_image, Next_image, Prev_image])
   \<and> idx (run demo_world demo_ready [Save_label, Next_image, Next_image, Prev_image]) < 3"
  using navigation_bounded [of demo_ready demo_world
      "[Save_label, Next_image, Next_image, Prev_image]" 7]
  by (simp add: demo_ready_facts)


subsection \<open>Class selection\<close>

lemma filter_eq_index: "filter (\<lambda>i. i = j) [0..<n] = (if j < n then [j] else [])"
  by (induction n) auto

lemma active_flags_cong: "class_vars g' = class_vars g \<Longrightarrow> active_flags g' = active_flags g"
  by (simp add: active_flags_def)

lemma active_flags_bound: "i \<in> set (active_flags g) \<Longrightarrow> i < length (class_vars g)"
  by (simp add: active_flags_def)

lemma nth_map_enumerate:
  "i < length xs \<Longrightarrow> map f (enumerate 0 xs) ! i = f (i, xs ! i)"
  by (simp add: nth_enumerate_eq)

lemma active_flags_set_selected_class:
  "active_flags (set_selected_class g c) =
     (case c of None \<Rightarrow> []
      | Some k \<Rightarrow> if 0 \<le> k \<and> k < int (length (class_vars g)) then [nat k] else [])"
proof -
  let ?n = "length (class_vars g)"
  have "active_flags (set_selected_class g c)
          = filter (\<lambda>i. c \<noteq> None \<and> Some (int i) = c) [0..<?n]"
    unfolding active_flags_def
    by (rule filter_cong) (auto simp: set_selected_class_def nth_enumerate_eq)
  also have "\<dots> = (case c of None \<Rightarrow> []
      | Some k \<Rightarrow> if 0 \<le> k \<and> k < int ?n then [nat k] else [])"
  proof (cases c)
    case None
    then show ?thesis by simp
  next
    case (Some k)
    show ?thesis
    proof (cases "0 \<le> k")
      case True
      have "filter (\<lambda>i. Some (int i) = Some k) [0..<?n] = filter (\<lambda>i. i = nat k) [0..<?n]"
        using True by (intro filter_cong) auto
      then show ?thesis using Some True by (simp add: filter_eq_index nat_less_iff)
    next
      case False
      then have "filter (\<lambda>i. Some (int i) = Some k) [0..<?n] = []"
        by (auto simp: filter_empty_conv)
      then show ?thesis using Some False by simp
    qed
  qed
  finally show ?thesis .
qed

lemma on_class_toggle_on:
  assumes "i < length (class_vars g)" "class_vars g ! i = 1"
  shows "\<exists>g'. on_class_toggle g i = Inr g' \<and> selected_class_id g' = Some (int i)
           \<and> active_flags g' = [i] \<and> length (class_vars g') = length (class_vars g)"
proof -
  let ?g' = "g\<lparr>class_vars := map (\<lambda>(j, var). if j \<noteq> i then 0 else var)
                                      (enumerate 0 (class_vars g)),
                selected_class_id := Some (int i)\<rparr>"
  have t: "on_class_toggle g i = Inr ?g'" using assms by (simp add: on_class_toggle_def)
  have "active_flags ?g' = filter (\<lambda>j. j = i) [0..<length (class_vars g)]"
    unfolding active_flags_def
    by (rule filter_cong) (use assms in \<open>auto simp: nth_enumerate_eq\<close>)
  then have "active_flags ?g' = [i]" using assms(1) by (simp add: filter_eq_index)
  with t show ?thesis by simp
qed

lemma on_class_toggle_off:
  assumes "i < length (class_vars g)" "class_vars g ! i \<noteq> 1"
  shows "on_class_toggle g i = Inr (g\<lparr>selected_class_id := None\<rparr>)"
  using assms by (simp add: on_class_toggle_def)

lemma active_flags_switch_off:
  assumes "i < length (class_vars g)"
  shows "active_flags (g\<lparr>class_vars := (class_vars g)[i := 0], selected_class_id := s\<rparr>)
           = filter (\<lambda>j. j \<noteq> i) (active_flags g)"
  unfolding active_flags_def filter_filter
  by (rule filter_cong) (use assms in \<open>auto simp: nth_list_update split: if_splits\<close>)

lemma click_class_result:
  assumes "i < length (class_vars g)"
  shows "\<exists>g'. click_class g i = Inr g' \<and> length (class_vars g') = length (class_vars g)
          \<and> (if class_vars g ! i = 1
              then selected_class_id g' = None
                   \<and> active_flags g' = filter (\<lambda>j. j \<noteq> i) (active_flags g)
              else selected_class_id g' = Some (int i) \<and> active_flags g' = [i])"
proof (cases "class_vars g ! i = 1")
  case True
  let ?g1 = "g\<lparr>class_vars := (class_vars g)[i := 0]\<rparr>"
  have c: "click_class g i = on_class_toggle ?g1 i"
    using assms True by (simp add: click_class_def)
  have "on_class_toggle ?g1 i = Inr (?g1\<lparr>selected_class_id := None\<rparr>)"
    by (rule on_class_toggle_off) (use assms in simp_all)
  then show ?thesis
    using c True active_flags_switch_off [OF assms, of None] by simp
next
  case False
  let ?g1 = "g\<lparr>class_vars := (class_vars g)[i := 1]\<rparr>"
  have c: "click_class g i = on_class_toggle ?g1 i"
    using assms False by (simp add: click_class_def)
  have "\<exists>g'. on_class_toggle ?g1 i = Inr g' \<and> selected_class_id g' = Some (int i)
           \<and> active_flags g' = [i] \<and> length (class_vars g') = length (class_vars ?g1)"
    by (rule on_class_toggle_on) (use assms in simp_all)
  then show ?thesis using c False by auto
qed

lemma click_class_at_most_one:
  assumes "i < length (class_vars g)" "length (active_flags g) \<le> 1"
  shows "\<exists>g'. click_class g i = Inr g' \<and> length (active_flags g') \<le> 1"
proof -
  have "length (filter (\<lambda>j. j \<noteq> i) (active_flags g)) \<le> 1"
    using assms(2) length_filter_le [of "\<lambda>j. j \<noteq> i" "active_flags g"] by linarith
  then show ?thesis
    using click_class_result [OF assms(1)] by (auto split: if_splits)
qed

lemma click_class_selection_ok:
  assumes "i < length (class_vars g)" "selection_ok g"
  shows "\<exists>g'. click_class g i = Inr g' \<and> selection_ok g'"
proof (cases "class_vars g ! i = 1")
  case True
  then have "i \<in> set (active_flags g)" using assms(1) by (simp add: active_flags_def)
  then have "active_flags g = [i]"
    using assms(2) by (auto simp: selection_ok_def split: option.splits)
  then show ?thesis
    using click_class_result [OF assms(1)] True by (auto simp: selection_ok_def)
next
  case False
  then show ?thesis
    using click_class_result [OF assms(1)] by (auto simp: selection_ok_def)
qed

lemma show_label_at_most_one:
  "length (active_flags g) \<le> 1 \<Longrightarrow> length (active_flags (show_label wd g p W H)) \<le> 1"
  by (auto simp: show_label_def active_flags_set_selected_class split: option.splits prod.splits)

lemma load_image_at_most_one:
  assumes "length (active_flags g) \<le> 1"
  shows "length (active_flags (fst (load_image wd g i))) \<le> 1"
proof -
  have a: "active_flags (g\<lparr>idx := j\<rparr>) = active_flags g" for j
    by (rule active_flags_cong) simp
  have b: "active_flags (g\<lparr>idx := j, orig_img := s\<rparr>) = active_flags g" for j s
    by (rule active_flags_cong) simp
  have c: "active_flags (fit_to_canvas (g\<lparr>idx := j, orig_img := s\<rparr>) W H) = active_flags g"
    for j s W H
    by (rule active_flags_cong) simp
  have d: "active_flags (g\<lparr>idx := j, orig_img := s, scale_x := u, scale_y := v\<rparr>)
             = active_flags g" for j s u v
    by (rule active_flags_cong) simp
  have key: "length (active_flags
      (show_label wd (fit_to_canvas (g\<lparr>idx := j, orig_img := s\<rparr>) W H) p W H)) \<le> 1"
    for j s W H p
    by (rule show_label_at_most_one) (use assms in \<open>simp add: c\<close>)
  show ?thesis
    using assms key
    by (simp add: load_image_def Let_def a b d split: sum.splits option.splits prod.splits)
qed

lemma save_label_shape:
  assumes "save_succeeds g"
  shows "\<exists>written. fst (save_label wd g) =
           (if idx g < int (length (images g)) - 1
            then fst (load_image wd (g\<lparr>label_files := written\<rparr>) (idx g + 1))
            else g\<lparr>label_files := written\<rparr>)"
proof -
  from assms obtain cid x1c y1c x2c y2c W H where
    sel: "selected_class_id g = Some cid" and
    box: "current_bbox_canvas g = Some (x1c, y1c, x2c, y2c)" and
    sx: "scale_x g \<noteq> 0" and sy: "scale_y g \<noteq> 0" and
    img: "orig_img g = Some (W, H)" and W: "W \<noteq> 0" and H: "H \<noteq> 0" and
    lo: "- int (length (images g)) \<le> idx g" and hi: "idx g < int (length (images g))"
    by (auto simp: save_succeeds_def split: option.splits)
  obtain p where p: "py_index (images g) (idx g) = Inr p"
    using py_index_ok [OF lo hi] by blast
  define r where "r = clamp_rect
      ((min x1c x2c - real_of_int (offset_x g)) / scale_x g,
       (min y1c y2c - real_of_int (offset_y g)) / scale_y g,
       (max x1c x2c - real_of_int (offset_x g)) / scale_x g,
       (max y1c y2c - real_of_int (offset_y g)) / scale_y g) (W, H)"
  obtain a b c d where rr: "r = (a, b, c, d)" by (cases r) auto
  obtain xl xh where ax: "axis a c W = (xl, xh)" by (cases "axis a c W") auto
  obtain yl yh where ay: "axis b d H = (yl, yh)" by (cases "axis b d H") auto
  obtain bx where n: "normalize_box r (W, H) = Inr bx"
    unfolding rr using normalize_box_eq [OF W H ax ay] by blast
  have w: "yolo_save_label (label_files g) (label_path_for p) cid r (W, H)
             = Inr ((label_files g)(label_path_for p \<mapsto> label_line cid bx))"
    by (simp add: yolo_save_label_line n)
  have "fst (save_label wd g) =
           (if idx g < int (length (images g)) - 1
            then fst (load_image wd
                   (g\<lparr>label_files := (label_files g)(label_path_for p \<mapsto> label_line cid bx)\<rparr>)
                   (idx g + 1))
            else g\<lparr>label_files := (label_files g)(label_path_for p \<mapsto> label_line cid bx)\<rparr>)"
    using sel box sx sy img p w
    by (simp add: save_label_def Let_def to_original_def r_def)
  then show ?thesis by blast
qed

lemma save_label_at_most_one:
  assumes "length (active_flags g) \<le> 1"
  shows "length (active_flags (fst (save_label wd g))) \<le> 1"
proof (cases "save_succeeds g")
  case False
  then show ?thesis using assms by (simp add: save_label_no_success)
next
  case True
  then obtain written where s: "fst (save_label wd g) =
           (if idx g < int (length (images g)) - 1
            then fst (load_image wd (g\<lparr>label_files := written\<rparr>) (idx g + 1))
            else g\<lparr>label_files := written\<rparr>)"
    using save_label_shape by blast
  have a: "active_flags (g\<lparr>label_files := written\<rparr>) = active_flags g"
    by (rule active_flags_cong) simp
  have "length (active_flags (fst (load_image wd (g\<lparr>label_files := written\<rparr>) (idx g + 1)))) \<le> 1"
    by (rule load_image_at_most_one) (use assms in \<open>simp add: a\<close>)
  then show ?thesis using assms unfolding s by (simp add: a)
qed

lemma perform_at_most_one:
  assumes "length (active_flags g) \<le> 1"
  shows "length (active_flags (perform wd g a)) \<le> 1"
proof (cases a)
  case (Press x y)
  have "active_flags (on_press g (x, y)) = active_flags g" by (rule active_flags_cong) simp
  then show ?thesis using assms Press by simp
next
  case (Motion x y)
  have "active_flags (on_drag g (x, y)) = active_flags g" by (rule active_flags_cong) simp
  then show ?thesis using assms Motion by simp
next
  case (Release x y)
  have "active_flags (on_release g (x, y)) = active_flags g" by (rule active_flags_cong) simp
  then show ?thesis using assms Release by simp
next
  case (Click_class i)
  show ?thesis
  proof (cases "i < length (class_vars g)")
    case True
    then show ?thesis
      using click_class_at_most_one [OF True assms] Click_class by auto
  next
    case False
    then show ?thesis using assms Click_class by (simp add: click_class_def)
  qed
next
  case Clear_bbox
  have "active_flags (clear_bbox g) = active_flags g" by (rule active_flags_cong) simp
  then show ?thesis using assms Clear_bbox by simp
next
  case Prev_image
  then show ?thesis
    using assms load_image_at_most_one [OF assms] by (simp add: prev_image_def)
next
  case Next_image
  then show ?thesis
    using assms load_image_at_most_one [OF assms] by (simp add: next_image_def)
next
  case Save_label
  then show ?thesis using save_label_at_most_one [OF assms] by simp
next
  case (Load_image i)
  then show ?thesis using load_image_at_most_one [OF assms] by simp
qed

lemma run_at_most_one:
  assumes "length (active_flags g) \<le> 1"
  shows "length (active_flags (run wd g acts)) \<le> 1"
  using assms unfolding run_def
proof (induction acts arbitrary: g)
  case Nil
  then show ?case by simp
next
  case (Cons a acts)
  show ?case
    using Cons.IH [OF perform_at_most_one [OF Cons.prems, of wd a]] by simp
qed

text \<open>
  The check boxes are as many as the class names: the constructor makes one variable for
  each name (lines 128 to 131), and no handler changes the names or the number of
  variables. An index below the number of check boxes is therefore an index of the list
  of class names.
\<close>

lemma set_selected_class_names [simp]:
  "class_names (set_selected_class g c) = class_names g"
  by (simp add: set_selected_class_def)

lemma draw_or_update_bbox_names [simp]:
  "class_names (draw_or_update_bbox g p1 p2) = class_names g"
  by (simp add: draw_or_update_bbox_def Let_def split: prod.splits)

lemma show_label_classes:
  "length (class_vars (show_label wd g p W H)) = length (class_vars g)
   \<and> class_names (show_label wd g p W H) = class_names g"
  by (simp add: show_label_def split: option.splits prod.splits)

lemma load_image_classes:
  "length (class_vars (fst (load_image wd g i))) = length (class_vars g)
   \<and> class_names (fst (load_image wd g i)) = class_names g"
  by (simp add: load_image_def Let_def show_label_classes fit_to_canvas_def
      split: sum.splits option.splits prod.splits)

lemma save_label_classes:
  "length (class_vars (fst (save_label wd g))) = length (class_vars g)
   \<and> class_names (fst (save_label wd g)) = class_names g"
proof (cases "save_succeeds g")
  case False
  then show ?thesis by (simp add: save_label_no_success)
next
  case True
  then obtain written where s: "fst (save_label wd g) =
           (if idx g < int (length (images g)) - 1
            then fst (load_image wd (g\<lparr>label_files := written\<rparr>) (idx g + 1))
            else g\<lparr>label_files := written\<rparr>)"
    using save_label_shape by blast
  show ?thesis unfolding s by (simp add: load_image_classes)
qed

lemma click_class_classes:
  assumes "click_class g i = Inr g'"
  shows "length (class_vars g') = length (class_vars g) \<and> class_names g' = class_names g"
  using assms
  by (auto simp: click_class_def on_class_toggle_def set_selected_class_def
      split: if_splits)

lemma perform_classes:
  "length (class_vars (perform wd g a)) = length (class_vars g)
   \<and> class_names (perform wd g a) = class_names g"
proof (cases a)
  case (Click_class i)
  then show ?thesis by (auto dest: click_class_classes split: sum.splits)
next
  case Prev_image
  then show ?thesis by (simp add: prev_image_def load_image_classes)
next
  case Next_image
  then show ?thesis by (simp add: next_image_def load_image_classes)
next
  case Save_label
  then show ?thesis by (simp add: save_label_classes)
next
  case (Load_image i)
  then show ?thesis by (simp add: load_image_classes)
qed (simp_all add: on_press_def on_drag_def on_release_def clear_bbox_def)

lemma run_classes:
  "length (class_vars (run wd g acts)) = length (class_vars g)
   \<and> class_names (run wd g acts) = class_names g"
  unfolding run_def by (induction acts arbitrary: g) (simp_all add: perform_classes)

lemma new_gui_classes:
  "length (class_vars (new_gui names imgs labels))
     = length (class_names (new_gui names imgs labels))"
  by (simp add: new_gui_def)

lemma init_gui_classes:
  assumes "init_gui wd names entries labels = Inr g"
  shows "length (class_vars (run wd g acts)) = length (class_names (run wd g acts))
         \<and> class_names (run wd g acts) = names"
proof -
  from assms
  have "g = fst (load_image wd (new_gui names (list_images IMAGES_DIR entries) labels) 0)"
    by (auto simp: init_gui_def Let_def split: if_splits prod.splits option.splits)
  then show ?thesis by (simp add: run_classes load_image_classes new_gui_def)
qed

text \<open>
  Claim C10, as amended. After \<open>set_selected_class\<close> with any argument at most one check
  box is on, and the selected class is the argument; for \<open>None\<close> or an index of the
  class list the selection agrees with the boxes, while for an integer outside the list
  no box is on. \<open>on_class_toggle\<close> on a box that is on selects it and leaves it the only
  one on; on a box that is off it selects nothing and changes no box. A click keeps the
  number of boxes that are on at one or less, and keeps the agreement of selection and
  boxes; so does every sequence of handler calls for the number of boxes. Where the
  selection agrees with the boxes, a selected class is an index of the class list.
\<close>

theorem class_selection_exclusive:
  "length (active_flags (set_selected_class g c)) \<le> 1
   \<and> selected_class_id (set_selected_class g c) = c
   \<and> (c = None \<or> (\<exists>k. c = Some k \<and> 0 \<le> k \<and> k < int (length (class_vars g)))
        \<longrightarrow> selection_ok (set_selected_class g c))
   \<and> (\<forall>k. c = Some k \<and> (k < 0 \<or> int (length (class_vars g)) \<le> k)
        \<longrightarrow> active_flags (set_selected_class g c) = [])
   \<and> (i < length (class_vars g) \<and> class_vars g ! i = 1
        \<longrightarrow> (\<exists>g'. on_class_toggle g i = Inr g' \<and> selected_class_id g' = Some (int i)
                  \<and> active_flags g' = [i] \<and> selection_ok g'))
   \<and> (i < length (class_vars g) \<and> class_vars g ! i \<noteq> 1
        \<longrightarrow> (\<exists>g'. on_class_toggle g i = Inr g' \<and> selected_class_id g' = None
                  \<and> class_vars g' = class_vars g))
   \<and> (i < length (class_vars g) \<and> length (active_flags g) \<le> 1
        \<longrightarrow> (\<exists>g'. click_class g i = Inr g' \<and> length (active_flags g') \<le> 1))
   \<and> (i < length (class_vars g) \<and> selection_ok g
        \<longrightarrow> (\<exists>g'. click_class g i = Inr g' \<and> selection_ok g'))
   \<and> (length (active_flags g) \<le> 1 \<longrightarrow> length (active_flags (run wd g acts)) \<le> 1)
   \<and> (\<forall>k. selection_ok g \<and> selected_class_id g = Some k
        \<longrightarrow> 0 \<le> k \<and> k < int (length (class_vars g)))"
proof -
  have 1: "length (active_flags (set_selected_class g c)) \<le> 1"
    by (simp add: active_flags_set_selected_class split: option.splits)
  have 3: "selection_ok (set_selected_class g c)"
    if "c = None \<or> (\<exists>k. c = Some k \<and> 0 \<le> k \<and> k < int (length (class_vars g)))"
    using that by (auto simp: selection_ok_def active_flags_set_selected_class)
  have 4: "active_flags (set_selected_class g c) = []"
    if "c = Some k \<and> (k < 0 \<or> int (length (class_vars g)) \<le> k)" for k
    using that by (auto simp: active_flags_set_selected_class)
  have 5: "\<exists>g'. on_class_toggle g i = Inr g' \<and> selected_class_id g' = Some (int i)
                  \<and> active_flags g' = [i] \<and> selection_ok g'"
    if "i < length (class_vars g) \<and> class_vars g ! i = 1"
    using on_class_toggle_on [of i g] that by (auto simp: selection_ok_def)
  have 6: "\<exists>g'. on_class_toggle g i = Inr g' \<and> selected_class_id g' = None
                  \<and> class_vars g' = class_vars g"
    if "i < length (class_vars g) \<and> class_vars g ! i \<noteq> 1"
    using on_class_toggle_off [of i g] that by simp
  have 7: "\<exists>g'. click_class g i = Inr g' \<and> length (active_flags g') \<le> 1"
    if "i < length (class_vars g) \<and> length (active_flags g) \<le> 1"
    using click_class_at_most_one [of i g] that by blast
  have 8: "\<exists>g'. click_class g i = Inr g' \<and> selection_ok g'"
    if "i < length (class_vars g) \<and> selection_ok g"
    using click_class_selection_ok [of i g] that by blast
  have 9: "length (active_flags (run wd g acts)) \<le> 1" if "length (active_flags g) \<le> 1"
    using that by (rule run_at_most_one)
  have 10: "0 \<le> k \<and> k < int (length (class_vars g))"
    if "selection_ok g \<and> selected_class_id g = Some k" for k
  proof -
    from that have k: "0 \<le> k" and a: "active_flags g = [nat k]"
      by (auto simp: selection_ok_def)
    then have "nat k < length (class_vars g)"
      using active_flags_bound [of "nat k" g] by simp
    with k show ?thesis by linarith
  qed
  from 1 3 4 5 6 7 8 9 10 show ?thesis by (simp only: set_selected_class_fields) blast
qed

text \<open>
  The theorem at the example session, where the second of two classes is selected.
\<close>

theorem class_selection_exclusive_witness:
  "selection_ok demo_ready \<and> length (active_flags demo_ready) \<le> 1
   \<and> 0 < length (class_vars demo_ready) \<and> class_vars demo_ready ! 0 \<noteq> 1
   \<and> selection_ok (set_selected_class demo_ready (Some 0))
   \<and> (\<exists>g'. click_class demo_ready 0 = Inr g' \<and> selection_ok g')
   \<and> length (active_flags (run demo_world demo_ready [Click_class 0, Save_label])) \<le> 1"
  using class_selection_exclusive [of demo_ready "Some 0" 0 demo_world
      "[Click_class 0, Save_label]"]
  by (simp add: demo_ready_facts demo_ready_active)


lemma stale_tokens:
  "first_line_tokens (cps ''5 0.5 0.5 0.2 0.2'')
     = [cps ''5'', cps ''0.5'', cps ''0.5'', cps ''0.2'', cps ''0.2'']"
  by (simp add: first_line_tokens_def py_split_def strip_def is_space_cp_def cps_def)

lemma stale_label:
  "yolo_load_label (conv_int demo_world) (conv_float demo_world) (text_decode demo_world)
     (regular_files [p \<mapsto> ''5 0.5 0.5 0.2 0.2'']) p = Some (5, (1 / 2, 1 / 2, 1 / 5, 1 / 5))"
proof -
  have d: "decode_ascii ''5 0.5 0.5 0.2 0.2'' = Some (cps ''5 0.5 0.5 0.2 0.2'')"
    by (simp add: decode_ascii_def)
  have i: "conv_int demo_world (cps ''5'') = Some 5"
    by (simp add: demo_world_def cps_def)
  have f: "conv_float demo_world (cps ''0.5'') = Some (1 / 2)"
    "conv_float demo_world (cps ''0.2'') = Some (1 / 5)"
    by (simp_all add: demo_world_def cps_def)
  have t: "text_decode demo_world = decode_ascii"
    by (simp add: demo_world_def)
  show ?thesis
    unfolding yolo_load_label_tokens t
    by (simp add: regular_files_def d stale_tokens i f)
qed

lemma stale_class_shown:
  assumes "label_files g = [label_path_for p \<mapsto> ''5 0.5 0.5 0.2 0.2'']"
  shows "selected_class_id (show_label demo_world g p W H) = Some 5"
  by (simp add: show_label_def assms stale_label split: prod.splits)

lemma stale_flags_shown:
  assumes "label_files g = [label_path_for p \<mapsto> ''5 0.5 0.5 0.2 0.2'']"
    and "length (class_vars g) = 2"
  shows "active_flags (show_label demo_world g p W H) = []"
  by (simp add: show_label_def assms stale_label active_flags_set_selected_class
      split: prod.splits)

text \<open>
  Claim C10 as stated fails: when the label of the second image names class 5 of a list
  of two classes, going to that image selects class 5 while no check box is on; the
  same holds for \<open>set_selected_class\<close> called with 5.
\<close>

theorem class_selection_counterexample:
  "selected_class_id (fst (next_image demo_world
       (demo_ready\<lparr>label_files := [label_path_for ''d/b.jpg'' \<mapsto> ''5 0.5 0.5 0.2 0.2'']\<rparr>)))
     = Some 5
   \<and> active_flags (fst (next_image demo_world
       (demo_ready\<lparr>label_files := [label_path_for ''d/b.jpg'' \<mapsto> ''5 0.5 0.5 0.2 0.2'']\<rparr>)))
     = []
   \<and> length (class_names demo_ready) = 2
   \<and> selected_class_id (set_selected_class demo_ready (Some 5)) = Some 5
   \<and> \<not> selection_ok (set_selected_class demo_ready (Some 5))"
proof -
  let ?g = "demo_ready\<lparr>label_files := [label_path_for ''d/b.jpg'' \<mapsto> ''5 0.5 0.5 0.2 0.2'']\<rparr>"
  let ?h = "fit_to_canvas (?g\<lparr>idx := 1, orig_img := Some (1000, 500)\<rparr>) 1000 500"
  have s: "py_int (1000 * fit_scale 1000 500) = 1000" "py_int (500 * fit_scale 1000 500) = 500"
    by (simp_all add: fit_scale_def MAX_CANVAS_W_def MAX_CANVAS_H_def py_int_def)
  have n: "fst (next_image demo_world ?g) = show_label demo_world ?h ''d/b.jpg'' 1000 500"
    by (simp add: next_image_def load_image_def demo_ready_def demo_world_def py_index_def
        Let_def s)
  have f: "label_files ?h = [label_path_for ''d/b.jpg'' \<mapsto> ''5 0.5 0.5 0.2 0.2'']"
    by simp
  have l: "length (class_vars ?h) = 2" by (simp add: demo_ready_def)
  have 1: "selected_class_id (fst (next_image demo_world ?g)) = Some 5"
    unfolding n using f by (rule stale_class_shown)
  have 2: "active_flags (fst (next_image demo_world ?g)) = []"
    unfolding n using f l by (rule stale_flags_shown)
  have 3: "length (class_names demo_ready) = 2" by (simp add: demo_ready_def)
  have 4: "\<not> selection_ok (set_selected_class demo_ready (Some 5))"
    by (simp add: active_flags_set_selected_class selection_ok_def demo_ready_facts)
  from 1 2 3 4 show ?thesis by simp
qed

end
